theory Spec2Isabelle
  imports Complex_Main "HOL-Library.Word"
begin

section \<open>Errors\<close>

text \<open>
  Every \<open>throw new Error(...)\<close> and every rejected promise of the engine is a value of
  this type; a function that can throw returns \<open>error + 'a\<close> with \<open>Inl\<close> the error.
\<close>

datatype error =
    InvalidTime
  | CannotEstimateSize
  | SchemaIsEmpty string
  | SchemaEncodingNotSupported
  | UnsupportedEncoding string
  | ExternalParserError
  | DeserializeError
  | FileTooLarge
  | DifferingSchemas nat
  | DifferingChannelInfos nat
  | ChannelWithoutSchema nat
  | MessageWithoutChannel nat
  | InitializationNotCompleted
  | DataSourceNotInitialized
  | StreamInputNotSupported
  | ReadInvalidInput
  | ReadExceedsCacheSize
  | ReadExceedsFileSize
  | FilelikeNotOpened
  | RangeExceedsMaxRequestSize
  | RangeFullyDownloaded

section \<open>Time (the functions of @foxglove/rostime the engine calls)\<close>

text \<open>
  Modelled from the spec: the \<open>Time\<close> functions of the @foxglove/rostime package, which
  is not among the sources. Section 3: a pair of seconds and nanoseconds with a total
  order, addition and inclusive-range membership, nanoseconds in \<open>[0, 1e9)\<close>. \<open>compare\<close>
  is the difference of the seconds, or of the nanoseconds when the seconds agree.
\<close>

record Time =
  sec :: int
  nsec :: int

definition compare :: "Time \<Rightarrow> Time \<Rightarrow> int" where
  "compare left right =
     (let secDiff = sec left - sec right
      in if secDiff \<noteq> 0 then secDiff else nsec left - nsec right)"

definition isLessThan :: "Time \<Rightarrow> Time \<Rightarrow> bool" where
  "isLessThan left right = (compare left right < 0)"

definition isGreaterThan :: "Time \<Rightarrow> Time \<Rightarrow> bool" where
  "isGreaterThan left right = (compare left right > 0)"

definition isTimeInRangeInclusive :: "Time \<Rightarrow> Time \<Rightarrow> Time \<Rightarrow> bool" where
  "isTimeInRangeInclusive t start_t end_t =
     (if compare start_t t > 0 \<or> compare end_t t < 0 then False else True)"

text \<open>\<open>fromNanoSec\<close> of an unsigned 64-bit count of nanoseconds.\<close>

definition fromNanoSec :: "nat \<Rightarrow> Time" where
  "fromNanoSec ns = \<lparr>sec = int (ns div 1000000000), nsec = int (ns mod 1000000000)\<rparr>"

text \<open>
  \<open>fixTime\<close> carries whole seconds out of the nanoseconds (floor division, the
  remainder made non-negative) and throws on a negative result; \<open>add\<close> (imported as
  \<open>addTime\<close>) adds fieldwise and normalises with it.
\<close>

definition fixTime :: "Time \<Rightarrow> error + Time" where
  "fixTime t =
     (let newSecs = sec t + nsec t div 1000000000;
          newNanos = nsec t mod 1000000000
      in if newSecs < 0 \<or> newNanos < 0 then Inl InvalidTime
         else Inr \<lparr>sec = newSecs, nsec = newNanos\<rparr>)"

definition addTime :: "Time \<Rightarrow> Time \<Rightarrow> error + Time" where
  "addTime a b = fixTime \<lparr>sec = sec a + sec b, nsec = nsec a + nsec b\<rparr>"

definition TIME_ZERO :: Time where
  "TIME_ZERO = \<lparr>sec = 0, nsec = 0\<rparr>"

section \<open>JavaScript values and numbers\<close>

text \<open>
  A JavaScript number is a finite value, \<open>NaN\<close> or an infinity. Only the value of a
  finite number matters below (whether it is an integer, which of two is larger), so it
  is kept as a rational.
\<close>

datatype jsnumber = Finite rat | NaN | PosInfinity | NegInfinity

definition isInteger :: "jsnumber \<Rightarrow> bool" where
  "isInteger x = (case x of Finite q \<Rightarrow> of_int \<lfloor>q\<rfloor> = q | _ \<Rightarrow> False)"

text \<open>\<open>Math.max\<close> of two arguments, the second possibly \<open>undefined\<close> (which converts to NaN).\<close>

fun math_max2 :: "jsnumber \<Rightarrow> jsnumber \<Rightarrow> jsnumber" where
  "math_max2 NaN _ = NaN"
| "math_max2 _ NaN = NaN"
| "math_max2 PosInfinity _ = PosInfinity"
| "math_max2 _ PosInfinity = PosInfinity"
| "math_max2 NegInfinity y = y"
| "math_max2 x NegInfinity = x"
| "math_max2 (Finite a) (Finite b) = Finite (max a b)"

definition toNumber :: "jsnumber option \<Rightarrow> jsnumber" where
  "toNumber v = (case v of None \<Rightarrow> NaN | Some x \<Rightarrow> x)"

definition math_max :: "jsnumber \<Rightarrow> jsnumber option \<Rightarrow> jsnumber" where
  "math_max a b = math_max2 a (toNumber b)"

text \<open>
  A decoded message is a JavaScript value. A string is the list of its UTF-16 code
  units (one \<open>char\<close> each, so \<open>length\<close> is \<open>obj.length\<close>); a typed array or DataView
  is known by its \<open>byteLength\<close>; an array, a Set, a Map and a plain object are known by
  their elements, entries and own enumerable properties in order.
\<close>

datatype jsvalue =
    JSNull
  | JSUndefined
  | JSBoolean bool
  | JSNumber jsnumber
  | JSBigInt int
  | JSString string
  | JSArray "jsvalue list"
  | JSTypedArray nat
  | JSSet "jsvalue list"
  | JSMap "(jsvalue \<times> jsvalue) list"
  | JSObject "(string \<times> jsvalue) list"
  | JSSymbol
  | JSFunction

section \<open>Memory estimator (messageMemoryEstimation.ts)\<close>

definition COMPRESSED_POINTER_SIZE :: int where
  "COMPRESSED_POINTER_SIZE = 4"

definition OBJECT_BASE_SIZE :: int where
  "OBJECT_BASE_SIZE = 3 * COMPRESSED_POINTER_SIZE"

definition ARRAY_BASE_SIZE :: int where
  "ARRAY_BASE_SIZE = OBJECT_BASE_SIZE + 3 * COMPRESSED_POINTER_SIZE"

definition TYPED_ARRAY_BASE_SIZE :: int where
  "TYPED_ARRAY_BASE_SIZE = 25 * COMPRESSED_POINTER_SIZE"

definition SMALL_INTEGER_SIZE :: int where
  "SMALL_INTEGER_SIZE = COMPRESSED_POINTER_SIZE"

definition HEAP_NUMBER_SIZE :: int where
  "HEAP_NUMBER_SIZE = 8 + 2 * COMPRESSED_POINTER_SIZE"

definition MAX_NUM_FAST_PROPERTIES :: nat where
  "MAX_NUM_FAST_PROPERTIES = 1020"

text \<open>
  The size of the property dictionary of an object in dictionary mode:
  \<open>16 + 5 * 8 + 2 ** Math.ceil(Math.log2((numProps + 2) * 1.5)) * 3 * 4\<close>.
\<close>

definition propertiesDictSize :: "nat \<Rightarrow> int" where
  "propertiesDictSize numProps =
     16 + 5 * 8 + 2 ^ nat \<lceil>log 2 ((real numProps + 2) * 1.5)\<rceil> * 3 * 4"

definition propertiesSize :: "nat \<Rightarrow> int" where
  "propertiesSize numProps =
     (if numProps > MAX_NUM_FAST_PROPERTIES
      then propertiesDictSize numProps - int numProps * COMPRESSED_POINTER_SIZE
      else 0)"

text \<open>
  \<open>estimateObjectSize\<close>. The three \<open>reduce\<close> calls are the three list functions: each
  adds the estimates from the left and stops at the first element whose estimate throws.
\<close>

function (sequential) estimateObjectSize :: "jsvalue \<Rightarrow> error + int"
  and reduce_values :: "jsvalue list \<Rightarrow> error + int"
  and reduce_entries :: "(jsvalue \<times> jsvalue) list \<Rightarrow> error + int"
  and reduce_properties :: "(string \<times> jsvalue) list \<Rightarrow> error + int"
where
  "estimateObjectSize JSNull = Inr SMALL_INTEGER_SIZE"
| "estimateObjectSize JSUndefined = Inr SMALL_INTEGER_SIZE"
| "estimateObjectSize (JSBoolean b) = Inr SMALL_INTEGER_SIZE"
| "estimateObjectSize (JSNumber x) =
     Inr (if isInteger x then SMALL_INTEGER_SIZE else HEAP_NUMBER_SIZE)"
| "estimateObjectSize (JSBigInt i) = Inr HEAP_NUMBER_SIZE"
| "estimateObjectSize (JSString s) =
     Inr (COMPRESSED_POINTER_SIZE + OBJECT_BASE_SIZE + \<lceil>rat_of_nat (length s) / 4\<rceil> * 4)"
| "estimateObjectSize (JSArray xs) =
     (case reduce_values xs of
        Inl e \<Rightarrow> Inl e
      | Inr elemsSize \<Rightarrow> Inr (COMPRESSED_POINTER_SIZE + ARRAY_BASE_SIZE + elemsSize))"
| "estimateObjectSize (JSTypedArray byteLength) =
     Inr (TYPED_ARRAY_BASE_SIZE + int byteLength)"
| "estimateObjectSize (JSSet xs) =
     (case reduce_values xs of
        Inl e \<Rightarrow> Inl e
      | Inr elemsSize \<Rightarrow> Inr (COMPRESSED_POINTER_SIZE + OBJECT_BASE_SIZE + elemsSize))"
| "estimateObjectSize (JSMap es) =
     (case reduce_entries es of
        Inl e \<Rightarrow> Inl e
      | Inr elemsSize \<Rightarrow> Inr (COMPRESSED_POINTER_SIZE + OBJECT_BASE_SIZE + elemsSize))"
| "estimateObjectSize (JSObject ps) =
     (case reduce_properties ps of
        Inl e \<Rightarrow> Inl e
      | Inr valuesSize \<Rightarrow> Inr (OBJECT_BASE_SIZE + propertiesSize (length ps) + valuesSize))"
| "estimateObjectSize JSSymbol = Inl CannotEstimateSize"
| "estimateObjectSize JSFunction = Inl CannotEstimateSize"
| "reduce_values [] = Inr 0"
| "reduce_values (v # vs) =
     (case estimateObjectSize v of
        Inl e \<Rightarrow> Inl e
      | Inr a \<Rightarrow> (case reduce_values vs of Inl e \<Rightarrow> Inl e | Inr rest \<Rightarrow> Inr (a + rest)))"
| "reduce_entries [] = Inr 0"
| "reduce_entries ((k, v) # es) =
     (case estimateObjectSize k of
        Inl e \<Rightarrow> Inl e
      | Inr a \<Rightarrow>
          (case estimateObjectSize v of
             Inl e \<Rightarrow> Inl e
           | Inr b \<Rightarrow> (case reduce_entries es of Inl e \<Rightarrow> Inl e | Inr rest \<Rightarrow> Inr (a + b + rest))))"
| "reduce_properties [] = Inr 0"
| "reduce_properties ((key, v) # ps) =
     (case estimateObjectSize v of
        Inl e \<Rightarrow> Inl e
      | Inr a \<Rightarrow> (case reduce_properties ps of Inl e \<Rightarrow> Inl e | Inr rest \<Rightarrow> Inr (a + rest)))"
  by pat_completeness auto
termination
  apply (relation "measure (case_sum
        (case_sum (\<lambda>v. 2 * size v) (\<lambda>xs. 2 * size (JSArray xs) - 1))
        (case_sum (\<lambda>es. 2 * size (JSMap es) - 1) (\<lambda>ps. 2 * size (JSObject ps) - 1)))")
   apply auto
  done


section \<open>JavaScript Map and Array helpers\<close>

text \<open>
  A \<open>Map\<close> is the list of its entries in insertion order, with distinct keys.
  \<open>map_set\<close> is \<open>Map.prototype.set\<close>: an existing key keeps its place, a new one
  goes last; \<open>map_of\<close> is \<open>get\<close>.
\<close>

fun map_set :: "'k \<Rightarrow> 'v \<Rightarrow> ('k \<times> 'v) list \<Rightarrow> ('k \<times> 'v) list" where
  "map_set k v [] = [(k, v)]"
| "map_set k v (e # es) = (if fst e = k then (k, v) # es else e # map_set k v es)"

definition map_has :: "('k \<times> 'v) list \<Rightarrow> 'k \<Rightarrow> bool" where
  "map_has m k = (case map_of m k of None \<Rightarrow> False | Some v \<Rightarrow> True)"

definition map_values :: "('k \<times> 'v) list \<Rightarrow> 'v list" where
  "map_values m = map snd m"

text \<open>
  \<open>Array.prototype.sort\<close> with a comparator: the sort is stable, so the result is the
  one an insertion sort gives that puts an element before the first later element it
  does not compare greater than.
\<close>

fun insert_by :: "('a \<Rightarrow> 'a \<Rightarrow> int) \<Rightarrow> 'a \<Rightarrow> 'a list \<Rightarrow> 'a list" where
  "insert_by cmp x [] = [x]"
| "insert_by cmp x (y # ys) = (if cmp x y \<le> 0 then x # y # ys else y # insert_by cmp x ys)"

definition array_sort :: "('a \<Rightarrow> 'a \<Rightarrow> int) \<Rightarrow> 'a list \<Rightarrow> 'a list" where
  "array_sort cmp xs = foldr (insert_by cmp) xs []"

section \<open>Channel parser (support/parseChannel.ts)\<close>

type_synonym bytes = "8 word list"

record MessageDefinitionField =
  fld_type :: string
  fld_name :: string
  fld_predicates :: "string list option"

record MessageDefinition =
  def_name :: "string option"
  definitions :: "MessageDefinitionField list"

type_synonym MessageDefinitionMap = "(string \<times> MessageDefinition) list"

text \<open>An IDL definition is a union (its cases with their predicates, its default case) or already a message definition.\<close>

datatype IDLMessageDefinition =
    IDLUnion "string option" "(MessageDefinitionField \<times> string list) list" "MessageDefinitionField option"
  | IDLOther MessageDefinition

record Schema =
  schema_id :: nat
  schema_name :: string
  schema_encoding :: string
  schema_data :: bytes

record Channel =
  messageEncoding :: string
  schema :: "Schema option"

record ParsedChannel =
  deserialize :: "bytes \<Rightarrow> error + jsvalue"
  pc_datatypes :: MessageDefinitionMap

text \<open>
  The parsers and readers of the packages parseChannel imports (omgidl-parser,
  ros2idl-parser, rosmsg, omgidl-serialization, rosmsg2-serialization) and the
  \<open>TextDecoder\<close> are parameters of the model; each may throw.
\<close>

record Parsers =
  textDecode :: "bytes \<Rightarrow> string"
  parseIDL :: "string \<Rightarrow> error + IDLMessageDefinition list"
  parseRos2idl :: "string \<Rightarrow> error + MessageDefinition list"
  parseMessageDefinition :: "string \<Rightarrow> error + MessageDefinition list"
  OmgidlMessageReader :: "string \<Rightarrow> IDLMessageDefinition list \<Rightarrow> error + (bytes \<Rightarrow> error + jsvalue)"
  ROS2MessageReader :: "MessageDefinition list \<Rightarrow> error + (bytes \<Rightarrow> error + jsvalue)"

definition KNOWN_EMPTY_SCHEMA_NAMES :: "string list" where
  "KNOWN_EMPTY_SCHEMA_NAMES = [''std_msgs/Empty'', ''std_msgs/msg/Empty'']"

fun parsedDefinitionsToDatatypes_loop ::
  "nat \<Rightarrow> MessageDefinition list \<Rightarrow> string option \<Rightarrow> MessageDefinitionMap \<Rightarrow> MessageDefinitionMap" where
  "parsedDefinitionsToDatatypes_loop index [] rootName dts = dts"
| "parsedDefinitionsToDatatypes_loop index (d # ds) rootName dts =
     parsedDefinitionsToDatatypes_loop (Suc index) ds rootName
       (case (if index = 0 then rootName else None) of
          Some r \<Rightarrow> map_set r \<lparr>def_name = Some r, definitions = definitions d\<rparr> dts
        | None \<Rightarrow>
            (case def_name d of
               Some n \<Rightarrow> map_set n \<lparr>def_name = Some n, definitions = definitions d\<rparr> dts
             | None \<Rightarrow> dts))"

definition parsedDefinitionsToDatatypes ::
  "MessageDefinition list \<Rightarrow> string option \<Rightarrow> MessageDefinitionMap" where
  "parsedDefinitionsToDatatypes parsedDefinitions rootName =
     parsedDefinitionsToDatatypes_loop 0 parsedDefinitions rootName []"

definition convertUnionToMessageDefinition :: "IDLMessageDefinition \<Rightarrow> MessageDefinition" where
  "convertUnionToMessageDefinition definition' =
     (case definition' of
        IDLUnion name cases defaultCase \<Rightarrow>
          \<lparr>def_name = name,
           definitions =
             map (\<lambda>c. (fst c)\<lparr>fld_predicates := Some (snd c)\<rparr>) cases
             @ (case defaultCase of None \<Rightarrow> [] | Some d \<Rightarrow> [d])\<rparr>
      | IDLOther d \<Rightarrow> d)"

definition parseIDLDefinitionsToDatatypes ::
  "IDLMessageDefinition list \<Rightarrow> string option \<Rightarrow> MessageDefinitionMap" where
  "parseIDLDefinitionsToDatatypes parsedDefinitions rootName =
     parsedDefinitionsToDatatypes (map convertUnionToMessageDefinition parsedDefinitions) rootName"

text \<open>
  \<open>parseChannel(channel, options)\<close>; \<open>options\<close> is \<open>None\<close> when the caller passes none and
  \<open>Some b\<close> for \<open>{ allowEmptySchema: b }\<close>.
\<close>

definition parseChannel :: "Parsers \<Rightarrow> Channel \<Rightarrow> bool option \<Rightarrow> error + ParsedChannel" where
  "parseChannel P channel options =
     (if options \<noteq> Some True
         \<and> (case schema channel of None \<Rightarrow> [] | Some s \<Rightarrow> schema_encoding s)
             \<in> set [''ros1msg'', ''ros2msg'', ''ros2idl'']
         \<and> (case schema channel of None \<Rightarrow> False | Some s \<Rightarrow> length (schema_data s) = 0)
         \<and> (case schema channel of None \<Rightarrow> False
             | Some s \<Rightarrow> schema_name s \<notin> set KNOWN_EMPTY_SCHEMA_NAMES)
      then Inl (SchemaIsEmpty (case schema channel of None \<Rightarrow> [] | Some s \<Rightarrow> schema_name s))
      else if messageEncoding channel = ''cdr'' then
        (case schema channel of
           None \<Rightarrow> Inl SchemaEncodingNotSupported
         | Some s \<Rightarrow>
             if schema_encoding s \<noteq> ''ros2msg'' \<and> schema_encoding s \<noteq> ''ros2idl''
                \<and> schema_encoding s \<noteq> ''omgidl''
             then Inl SchemaEncodingNotSupported
             else
               (let schemaText = textDecode P (schema_data s) in
                if schema_encoding s = ''omgidl'' then
                  (case parseIDL P schemaText of
                     Inl e \<Rightarrow> Inl e
                   | Inr parsedDefinitions \<Rightarrow>
                       (case OmgidlMessageReader P (schema_name s) parsedDefinitions of
                          Inl e \<Rightarrow> Inl e
                        | Inr reader \<Rightarrow>
                            Inr \<lparr>deserialize = reader,
                                 pc_datatypes = parseIDLDefinitionsToDatatypes parsedDefinitions None\<rparr>))
                else
                  (case (if schema_encoding s = ''ros2idl'' then parseRos2idl P schemaText
                         else parseMessageDefinition P schemaText) of
                     Inl e \<Rightarrow> Inl e
                   | Inr parsedDefinitions \<Rightarrow>
                       (case ROS2MessageReader P parsedDefinitions of
                          Inl e \<Rightarrow> Inl e
                        | Inr reader \<Rightarrow>
                            Inr \<lparr>deserialize = reader,
                                 pc_datatypes =
                                   parsedDefinitionsToDatatypes parsedDefinitions
                                     (Some (schema_name s))\<rparr>))))
      else Inl (UnsupportedEncoding (messageEncoding channel)))"

section \<open>Message events and iterator results (types.ts)\<close>

record MessageEvent =
  topic :: string
  schemaName :: string
  receiveTime :: Time
  publishTime :: "Time option"
  message :: jsvalue
  sizeInBytes :: jsnumber

datatype NotificationSeverity = SeverityError | SeverityWarn | SeverityInfo

record PlayerProblem =
  severity :: NotificationSeverity
  problem_message :: string
  tip :: "string option"

text \<open>
  An iterator result. The MCAP source adds a \<open>connectionId\<close> to its message events,
  the bag source does not: the first argument of \<open>MessageEventItem\<close>.
\<close>

datatype IteratorResult =
    MessageEventItem "nat option" MessageEvent
  | ProblemItem nat PlayerProblem
  | StampItem Time

datatype PreloadType = Full | Partial

record SubscribePayload =
  sp_topic :: string
  preloadType :: "PreloadType option"

type_synonym TopicSelection = "(string \<times> SubscribePayload) list"

record MessageIteratorArgs =
  arg_topics :: TopicSelection
  arg_start :: "Time option"
  arg_end :: "Time option"
  reverse :: "bool option"
  consumptionType :: "PreloadType option"

record GetBackfillMessagesArgs =
  backfill_topics :: TopicSelection
  backfill_time :: Time

record Topic =
  topic_name :: string
  topic_schemaName :: "string option"

section \<open>MCAP unindexed source (McapUnindexedIterableSource)\<close>

text \<open>
  The records the \<open>McapStreamReader\<close> of @mcap/core hands to \<open>processRecord\<close>, in file
  order. Times are unsigned 64-bit nanosecond counts.
\<close>

record McapChannel =
  mc_id :: nat
  mc_topic :: string
  mc_messageEncoding :: string
  mc_schemaId :: nat
  mc_metadata :: "(string \<times> string) list"

record McapMessage =
  channelId :: nat
  sequence :: nat
  logTime :: nat
  msg_publishTime :: nat
  msg_data :: bytes

datatype McapRecord =
    Header string
  | SchemaRecord Schema
  | ChannelRecord McapChannel
  | MessageRecord McapMessage
  | OtherRecord

record ChannelInfo =
  ci_channel :: McapChannel
  parsedChannel :: ParsedChannel
  ci_schemaName :: "string option"

text \<open>The local variables of \<open>initialize\<close> that \<open>processRecord\<close> closes over.\<close>

record InitState =
  channelIdsWithErrors :: "nat list"
  messagesByChannel :: "(nat \<times> MessageEvent list) list"
  schemasById :: "(nat \<times> Schema) list"
  channelInfoById :: "(nat \<times> ChannelInfo) list"
  messageSizeEstimateByTopic :: "(string \<times> int) list"
  startTime :: "Time option"
  endTime :: "Time option"
  profile :: "string option"

text \<open>\<open>_.isEqual\<close> on two channel records: fieldwise, the metadata Map compared as a set of entries.\<close>

definition channel_isEqual :: "McapChannel \<Rightarrow> McapChannel \<Rightarrow> bool" where
  "channel_isEqual a b =
     (mc_id a = mc_id b \<and> mc_topic a = mc_topic b
      \<and> mc_messageEncoding a = mc_messageEncoding b \<and> mc_schemaId a = mc_schemaId b
      \<and> set (mc_metadata a) = set (mc_metadata b))"

definition estimateMessageSize :: "string \<Rightarrow> jsvalue \<Rightarrow> InitState \<Rightarrow> error + (int \<times> InitState)" where
  "estimateMessageSize tp msg st =
     (case map_of (messageSizeEstimateByTopic st) tp of
        Some cachedSize \<Rightarrow> Inr (cachedSize, st)
      | None \<Rightarrow>
          (case estimateObjectSize msg of
             Inl e \<Rightarrow> Inl e
           | Inr sizeEstimate \<Rightarrow>
               Inr (sizeEstimate,
                    st\<lparr>messageSizeEstimateByTopic :=
                         map_set tp sizeEstimate (messageSizeEstimateByTopic st)\<rparr>)))"

fun processRecord :: "Parsers \<Rightarrow> McapRecord \<Rightarrow> InitState \<Rightarrow> error + InitState" where
  "processRecord P OtherRecord st = Inr st"
| "processRecord P (Header prof) st = Inr (st\<lparr>profile := Some prof\<rparr>)"
| "processRecord P (SchemaRecord r) st =
     (if (case map_of (schemasById st) (schema_id r) of
            Some existingSchema \<Rightarrow> existingSchema \<noteq> r
          | None \<Rightarrow> False)
      then Inl (DifferingSchemas (schema_id r))
      else Inr (st\<lparr>schemasById := map_set (schema_id r) r (schemasById st)\<rparr>))"
| "processRecord P (ChannelRecord r) st =
     (case map_of (channelInfoById st) (mc_id r) of
        Some existingInfo \<Rightarrow>
          if channel_isEqual (ci_channel existingInfo) r then Inr st
          else Inl (DifferingChannelInfos (mc_id r))
      | None \<Rightarrow>
          if mc_id r \<in> set (channelIdsWithErrors st) then Inr st
          else
            (let sch = map_of (schemasById st) (mc_schemaId r) in
             if mc_schemaId r \<noteq> 0 \<and> sch = None
             then Inl (ChannelWithoutSchema (mc_schemaId r))
             else
               (case parseChannel P
                       \<lparr>messageEncoding = mc_messageEncoding r, schema = sch\<rparr> None of
                  Inr parsed \<Rightarrow>
                    Inr (st\<lparr>channelInfoById :=
                              map_set (mc_id r)
                                \<lparr>ci_channel = r, parsedChannel = parsed,
                                 ci_schemaName = map_option schema_name sch\<rparr>
                                (channelInfoById st),
                            messagesByChannel := map_set (mc_id r) [] (messagesByChannel st)\<rparr>)
                | Inl e \<Rightarrow>
                    Inr (st\<lparr>channelIdsWithErrors :=
                              List.insert (mc_id r) (channelIdsWithErrors st)\<rparr>))))"
| "processRecord P (MessageRecord r) st =
     (case (map_of (channelInfoById st) (channelId r),
            map_of (messagesByChannel st) (channelId r)) of
        (Some channelInfo, Some messages) \<Rightarrow>
          (let rt = fromNanoSec (logTime r);
               st1 = st\<lparr>startTime :=
                          (case startTime st of
                             None \<Rightarrow> Some rt
                           | Some t \<Rightarrow> if isLessThan rt t then Some rt else Some t),
                        endTime :=
                          (case endTime st of
                             None \<Rightarrow> Some rt
                           | Some t \<Rightarrow> if isGreaterThan rt t then Some rt else Some t)\<rparr>
           in case deserialize (parsedChannel channelInfo) (msg_data r) of
                Inl e \<Rightarrow> Inl e
              | Inr deserializedMessage \<Rightarrow>
                  (case estimateMessageSize (mc_topic (ci_channel channelInfo))
                          deserializedMessage st1 of
                     Inl e \<Rightarrow> Inl e
                   | Inr (estimatedMemorySize, st2) \<Rightarrow>
                       Inr (st2\<lparr>messagesByChannel :=
                                 map_set (channelId r)
                                   (messages @
                                    [\<lparr>topic = mc_topic (ci_channel channelInfo),
                                      schemaName =
                                        (case ci_schemaName channelInfo of
                                           Some n \<Rightarrow> n | None \<Rightarrow> []),
                                      receiveTime = rt,
                                      publishTime = Some (fromNanoSec (msg_publishTime r)),
                                      message = deserializedMessage,
                                      sizeInBytes =
                                        math_max (Finite (of_nat (length (msg_data r))))
                                          (Some (Finite (of_int estimatedMemorySize)))\<rparr>])
                                   (messagesByChannel st2)\<rparr>)))
      | _ \<Rightarrow>
          if channelId r \<in> set (channelIdsWithErrors st) then Inr st
          else Inl (MessageWithoutChannel (channelId r)))"

fun processRecords :: "Parsers \<Rightarrow> McapRecord list \<Rightarrow> InitState \<Rightarrow> error + InitState" where
  "processRecords P [] st = Inr st"
| "processRecords P (r # rs) st =
     (case processRecord P r st of Inl e \<Rightarrow> Inl e | Inr st' \<Rightarrow> processRecords P rs st')"

text \<open>
  The source object: \<open>options\<close> (the declared size, and the stream given by the records
  read from it) and the three private fields, unset before \<open>initialize\<close>.
\<close>

record McapUnindexedIterableSource =
  options_size :: nat
  options_stream :: "McapRecord list"
  msgEventsByChannel :: "(nat \<times> MessageEvent list) list option"
  mcap_start :: "Time option"
  mcap_end :: "Time option"

record Initalization =
  init_start :: Time
  init_end :: Time
  topics :: "Topic list"

text \<open>The MCAP source returns these fields on top of the three of the interface.\<close>

record McapInitalization = Initalization +
  init_datatypes :: MessageDefinitionMap
  init_profile :: "string option"
  publishersByTopic :: "(string \<times> string list) list"
  topicStats :: "(string \<times> nat) list"

text \<open>\<open>String(n)\<close> for a channel id.\<close>

fun string_of_nat :: "nat \<Rightarrow> string" where
  "string_of_nat n =
     (if n < 10 then [char_of (48 + n)]
      else string_of_nat (n div 10) @ [char_of (48 + n mod 10)])"

declare string_of_nat.simps [simp del]

definition set_add :: "'a \<Rightarrow> 'a list \<Rightarrow> 'a list" where
  "set_add x xs = (if x \<in> set xs then xs else xs @ [x])"

text \<open>The closing loop of \<open>initialize\<close> over \<open>channelInfoById.values()\<close>, one result at a time.\<close>

definition init_topics :: "ChannelInfo list \<Rightarrow> Topic list" where
  "init_topics infos =
     map (\<lambda>ci. \<lparr>topic_name = mc_topic (ci_channel ci), topic_schemaName = ci_schemaName ci\<rparr>) infos"

definition init_topicStats ::
  "(nat \<times> MessageEvent list) list \<Rightarrow> ChannelInfo list \<Rightarrow> (string \<times> nat) list" where
  "init_topicStats byChannel infos =
     fold (\<lambda>ci stats.
             case map_of byChannel (mc_id (ci_channel ci)) of
               Some msgs \<Rightarrow> map_set (mc_topic (ci_channel ci)) (length msgs) stats
             | None \<Rightarrow> stats)
          infos []"

definition init_publishersByTopic :: "ChannelInfo list \<Rightarrow> (string \<times> string list) list" where
  "init_publishersByTopic infos =
     fold (\<lambda>ci pubs.
             let publisherId =
                   (case map_of (mc_metadata (ci_channel ci)) ''callerid'' of
                      Some c \<Rightarrow> c
                    | None \<Rightarrow> string_of_nat (mc_id (ci_channel ci)));
                 publishers =
                   (case map_of pubs (mc_topic (ci_channel ci)) of Some ps \<Rightarrow> ps | None \<Rightarrow> [])
             in map_set (mc_topic (ci_channel ci)) (set_add publisherId publishers) pubs)
          infos []"

definition init_datatypes_of :: "ChannelInfo list \<Rightarrow> MessageDefinitionMap" where
  "init_datatypes_of infos =
     fold (\<lambda>ci dts. fold (\<lambda>nd acc'. map_set (fst nd) (snd nd) acc') (pc_datatypes (parsedChannel ci)) dts)
          infos []"

definition mcap_initialize ::
  "Parsers \<Rightarrow> McapUnindexedIterableSource
   \<Rightarrow> error + (McapInitalization \<times> McapUnindexedIterableSource)" where
  "mcap_initialize P src =
     (if options_size src > 1024 * 1024 * 1024 then Inl FileTooLarge
      else
        (case processRecords P (options_stream src)
                \<lparr>channelIdsWithErrors = [], messagesByChannel = [], schemasById = [],
                 channelInfoById = [], messageSizeEstimateByTopic = [],
                 startTime = None, endTime = None, profile = None\<rparr> of
           Inl e \<Rightarrow> Inl e
         | Inr st \<Rightarrow>
             (let infos = map_values (channelInfoById st);
                  start_t = (case startTime st of Some t \<Rightarrow> t | None \<Rightarrow> \<lparr>sec = 0, nsec = 0\<rparr>);
                  end_t = (case endTime st of Some t \<Rightarrow> t | None \<Rightarrow> \<lparr>sec = 0, nsec = 0\<rparr>)
              in Inr (\<lparr>init_start = start_t, init_end = end_t,
                       topics = init_topics infos,
                       init_datatypes = init_datatypes_of infos,
                       init_profile = profile st,
                       publishersByTopic = init_publishersByTopic infos,
                       topicStats = init_topicStats (messagesByChannel st) infos\<rparr>,
                      src\<lparr>msgEventsByChannel := Some (messagesByChannel st),
                          mcap_start := Some start_t, mcap_end := Some end_t\<rparr>))))"

text \<open>
  \<open>messageIterator\<close> is an async generator: the model returns the items it yields, in
  order, or the error its first \<open>next()\<close> rejects with. \<open>resultMessages\<close> holds each
  selected event with its channel id; \<open>args.reverse\<close> is not read.
\<close>

definition mcap_messageIterator ::
  "McapUnindexedIterableSource \<Rightarrow> MessageIteratorArgs \<Rightarrow> error + IteratorResult list" where
  "mcap_messageIterator src args =
     (case msgEventsByChannel src of
        None \<Rightarrow> Inl InitializationNotCompleted
      | Some byChannel \<Rightarrow>
          (let tps = arg_topics args;
               start_o = (case arg_start args of Some t \<Rightarrow> Some t | None \<Rightarrow> mcap_start src);
               end_o = (case arg_end args of Some t \<Rightarrow> Some t | None \<Rightarrow> mcap_end src)
           in case (start_o, end_o) of
                (Some start_t, Some end_t) \<Rightarrow>
                  if length tps = 0 then Inr []
                  else
                    (let resultMessages =
                           concat (map (\<lambda>entry.
                                     map (\<lambda>msgEvent. (fst entry, msgEvent))
                                       (filter (\<lambda>msgEvent.
                                            isTimeInRangeInclusive (receiveTime msgEvent) start_t end_t
                                            \<and> map_has tps (topic msgEvent))
                                          (snd entry)))
                                   byChannel)
                     in Inr (map (\<lambda>r. MessageEventItem (Some (fst r)) (snd r))
                               (array_sort (\<lambda>a b. compare (receiveTime (snd a)) (receiveTime (snd b)))
                                  resultMessages)))
              | _ \<Rightarrow> Inr []))"

definition mcap_getBackfillMessages ::
  "McapUnindexedIterableSource \<Rightarrow> GetBackfillMessagesArgs \<Rightarrow> error + MessageEvent list" where
  "mcap_getBackfillMessages src args =
     (case msgEventsByChannel src of
        None \<Rightarrow> Inl InitializationNotCompleted
      | Some byChannel \<Rightarrow>
          Inr (map_values
                 (fold (\<lambda>entry msgEventsByTopic.
                          fold (\<lambda>msgEvent m.
                                  if compare (receiveTime msgEvent) (backfill_time args) \<le> 0
                                     \<and> map_has (backfill_topics args) (topic msgEvent)
                                  then map_set (topic msgEvent) msgEvent m
                                  else m)
                               (snd entry) msgEventsByTopic)
                       byChannel [])))"

section \<open>Bag source (BagIterableSource.ts)\<close>

text \<open>
  The opened \<open>Bag\<close> of @foxglove/rosbag is a parameter: its connections, chunk infos
  and time bounds, and its native iterator, given by the sequence of messages it yields
  for \<open>(topics, reverse, start)\<close>. So are the rosmsg parser and the reader constructor.
\<close>

record BagConnection =
  conn_topic :: string
  conn_type :: "string option"
  messageDefinition :: string

record BagMessageEvent =
  bag_connectionId :: nat
  bag_topic :: string
  timestamp :: Time
  bag_data :: bytes

record ChunkInfo =
  chunk_startTime :: Time
  chunk_endTime :: Time

record Bag =
  connections :: "(nat \<times> BagConnection) list"
  chunkInfos :: "ChunkInfo list"
  bag_startTime :: "Time option"
  bag_endTime :: "Time option"
  bag_native_iterator :: "string list option \<Rightarrow> bool option \<Rightarrow> Time option \<Rightarrow> BagMessageEvent list"

record RosbagParsers =
  ros1_parseMessageDefinition :: "string \<Rightarrow> error + MessageDefinition list"
  ROS1MessageReader :: "MessageDefinition list \<Rightarrow> error + (bytes \<Rightarrow> error + jsvalue)"

text \<open>The input descriptor, with what opening the file or URL as a bag gives.\<close>

datatype DataSourceInput = FileInput "error + Bag" | UrlInput "error + Bag" | StreamInput

datatype bag_error = FailedToInitializeRosBag error | BagDataSourceNotInitialized | BagReadError error

record BagIterableSource =
  bag_input :: DataSourceInput
  bag :: "Bag option"
  readersByConnectionId :: "(nat \<times> (bytes \<Rightarrow> error + jsvalue)) list"
  datatypesByConnectionId :: "(nat \<times> string) list"
  bag_messageSizeEstimateByTopic :: "(string \<times> jsnumber) list"

text \<open>The constructor: the field initialisers of the class.\<close>

definition BagIterableSource_new :: "DataSourceInput \<Rightarrow> BagIterableSource" where
  "BagIterableSource_new inp =
     \<lparr>bag_input = inp, bag = None, readersByConnectionId = [],
      datatypesByConnectionId = [], bag_messageSizeEstimateByTopic = []\<rparr>"

text \<open>
  \<open>#getBagChunksOverlapCount\<close>. \<open>maxEndTime\<close> starts at \<open>{ sec: -Infinity, nsec: 0 }\<close>,
  which no time is less than and every time is greater than: \<open>None\<close> here.
\<close>

definition getBagChunksOverlapCount :: "ChunkInfo list \<Rightarrow> nat" where
  "getBagChunksOverlapCount infos =
     snd (fold (\<lambda>ci st.
                  (case fst st of
                     None \<Rightarrow> (Some (chunk_endTime ci), snd st)
                   | Some maxEndTime \<Rightarrow>
                       (if isGreaterThan (chunk_endTime ci) maxEndTime
                        then Some (chunk_endTime ci) else Some maxEndTime,
                        if isLessThan (chunk_startTime ci) maxEndTime
                        then snd st + 1 else snd st)))
               (array_sort (\<lambda>l r. compare (chunk_startTime l) (chunk_startTime r)) infos)
               (None, 0))"

text \<open>The loop of \<open>initialize\<close> over \<open>bag.connections\<close>; a connection with no type (or an empty one) is skipped.\<close>

fun bag_connections_loop ::
  "RosbagParsers \<Rightarrow> (nat \<times> BagConnection) list
   \<Rightarrow> (string \<times> Topic) list \<times> BagIterableSource
   \<Rightarrow> error + ((string \<times> Topic) list \<times> BagIterableSource)" where
  "bag_connections_loop L [] acc' = Inr acc'"
| "bag_connections_loop L (c # cs) acc' =
     (case conn_type (snd c) of
        None \<Rightarrow> bag_connections_loop L cs acc'
      | Some schemaName' \<Rightarrow>
          if schemaName' = [] then bag_connections_loop L cs acc'
          else
            (let tps = (if map_has (fst acc') (conn_topic (snd c)) then fst acc'
                        else map_set (conn_topic (snd c))
                               \<lparr>topic_name = conn_topic (snd c), topic_schemaName = Some schemaName'\<rparr>
                               (fst acc'))
             in case ros1_parseMessageDefinition L (messageDefinition (snd c)) of
                  Inl e \<Rightarrow> Inl e
                | Inr parsedDefinition \<Rightarrow>
                    (case ROS1MessageReader L parsedDefinition of
                       Inl e \<Rightarrow> Inl e
                     | Inr reader \<Rightarrow>
                         bag_connections_loop L cs
                           (tps,
                            (snd acc')
                              \<lparr>readersByConnectionId :=
                                 map_set (fst c) reader (readersByConnectionId (snd acc')),
                               datatypesByConnectionId :=
                                 map_set (fst c) schemaName' (datatypesByConnectionId (snd acc'))\<rparr>))))"

text \<open>
  \<open>initialize\<close>: the result, whether the overlap warning was printed, and the source
  after the call. Every error is rethrown as "Failed to initialize ROS bag".
\<close>

definition bag_initialize ::
  "RosbagParsers \<Rightarrow> BagIterableSource
   \<Rightarrow> bag_error + (Initalization \<times> bool \<times> BagIterableSource)" where
  "bag_initialize L src =
     (case (case bag_input src of
              FileInput b \<Rightarrow> b
            | UrlInput b \<Rightarrow> b
            | StreamInput \<Rightarrow> Inl StreamInputNotSupported) of
        Inl e \<Rightarrow> Inl (FailedToInitializeRosBag e)
      | Inr b \<Rightarrow>
          (let src1 = src\<lparr>bag := Some b\<rparr>;
               chunksOverlapCount = getBagChunksOverlapCount (chunkInfos b);
               warned = (4 * chunksOverlapCount > length (chunkInfos b))
           in case bag_connections_loop L (connections b) ([], src1) of
                Inl e \<Rightarrow> Inl (FailedToInitializeRosBag e)
              | Inr r \<Rightarrow>
                  Inr (\<lparr>init_start = (case bag_startTime b of Some t \<Rightarrow> t | None \<Rightarrow> \<lparr>sec = 0, nsec = 0\<rparr>),
                        init_end = (case bag_endTime b of Some t \<Rightarrow> t | None \<Rightarrow> \<lparr>sec = 0, nsec = 0\<rparr>),
                        topics = map_values (fst r)\<rparr>,
                       warned, snd r)))"

text \<open>
  The \<open>for await\<close> loop of \<open>messageIterator\<close> over the native iterator's messages: the
  items yielded, and the error the generator ends with if a reader throws.
  \<open>msgSizeEstimate\<close> is the lookup \<open>this.messageSizeEstimateByTopic[bagMsgEvent.topic]\<close>,
  \<open>undefined\<close> for a topic that is not a key.
\<close>

fun bag_messageIterator_loop ::
  "BagIterableSource \<Rightarrow> Time option \<Rightarrow> BagMessageEvent list
   \<Rightarrow> IteratorResult list \<times> bag_error option" where
  "bag_messageIterator_loop src end_o [] = ([], None)"
| "bag_messageIterator_loop src end_o (bagMsgEvent # evs) =
     (if (case end_o of Some e \<Rightarrow> compare (timestamp bagMsgEvent) e > 0 | None \<Rightarrow> False)
      then ([], None)
      else
        (case map_of (datatypesByConnectionId src) (bag_connectionId bagMsgEvent) of
           None \<Rightarrow> ([], None)
         | Some schemaName' \<Rightarrow>
             if schemaName' = [] then ([], None)
             else
               (case map_of (readersByConnectionId src) (bag_connectionId bagMsgEvent) of
                  None \<Rightarrow> bag_messageIterator_loop src end_o evs
                | Some reader \<Rightarrow>
                    (case reader (bag_data bagMsgEvent) of
                       Inl e \<Rightarrow> ([], Some (BagReadError e))
                     | Inr parsedMessage \<Rightarrow>
                         (let msgSizeEstimate =
                                map_of (bag_messageSizeEstimateByTopic src) (bag_topic bagMsgEvent);
                              item =
                                MessageEventItem None
                                  \<lparr>topic = bag_topic bagMsgEvent,
                                   schemaName = schemaName',
                                   receiveTime = timestamp bagMsgEvent,
                                   publishTime = None,
                                   message = parsedMessage,
                                   sizeInBytes =
                                     math_max (Finite (of_nat (length (bag_data bagMsgEvent))))
                                       msgSizeEstimate\<rparr>;
                              rest = bag_messageIterator_loop src end_o evs
                          in (item # fst rest, snd rest))))))"

definition bag_messageIterator ::
  "BagIterableSource \<Rightarrow> MessageIteratorArgs \<Rightarrow> IteratorResult list \<times> bag_error option" where
  "bag_messageIterator src args =
     (case bag src of
        None \<Rightarrow> ([], Some BagDataSourceNotInitialized)
      | Some b \<Rightarrow>
          bag_messageIterator_loop src (arg_end args)
            (bag_native_iterator b (Some (map fst (arg_topics args))) (reverse args) (arg_start args)))"

text \<open>
  \<open>getBackfillMessages\<close>: per requested topic, the first result of a reverse iterator
  from \<open>args.time\<close> (the loop breaks after it), then a sort by receive time.
\<close>

fun bag_backfill_loop ::
  "BagIterableSource \<Rightarrow> Time \<Rightarrow> TopicSelection \<Rightarrow> MessageEvent list
   \<Rightarrow> bag_error + MessageEvent list" where
  "bag_backfill_loop src t [] messages = Inr messages"
| "bag_backfill_loop src t (entry # entries) messages =
     (case bag_messageIterator src
             \<lparr>arg_topics = [entry], arg_start = Some t, arg_end = None,
              reverse = Some True, consumptionType = None\<rparr> of
        (result # later, err) \<Rightarrow>
          bag_backfill_loop src t entries
            (case result of
               MessageEventItem c msgEvent \<Rightarrow> messages @ [msgEvent]
             | _ \<Rightarrow> messages)
      | ([], Some e) \<Rightarrow> Inl e
      | ([], None) \<Rightarrow> bag_backfill_loop src t entries messages)"

definition bag_getBackfillMessages ::
  "BagIterableSource \<Rightarrow> GetBackfillMessagesArgs \<Rightarrow> bag_error + MessageEvent list" where
  "bag_getBackfillMessages src args =
     (case bag src of
        None \<Rightarrow> Inl BagDataSourceNotInitialized
      | Some b \<Rightarrow>
          (case bag_backfill_loop src (backfill_time args) (backfill_topics args) [] of
             Inl e \<Rightarrow> Inl e
           | Inr messages \<Rightarrow>
               Inr (array_sort (\<lambda>a b. compare (receiveTime a) (receiveTime b)) messages)))"

section \<open>Iterator cursor (IteratorCursor.ts)\<close>

text \<open>
  The wrapped \<open>AsyncIterableIterator\<close> is given by the items it has still to yield;
  \<open>next()\<close> takes the first, and answers \<open>done\<close> once none is left. \<open>return\<close> is an
  optional method of the interface: an async generator (what the sources hand to the
  cursor) has it, and it finishes the generator.
\<close>

record AsyncIterator =
  pending :: "IteratorResult list"
  has_return :: bool

definition iter_next :: "AsyncIterator \<Rightarrow> IteratorResult option \<times> AsyncIterator" where
  "iter_next it =
     (case pending it of
        [] \<Rightarrow> (None, it)
      | x # xs \<Rightarrow> (Some x, it\<lparr>pending := xs\<rparr>))"

definition iter_return :: "AsyncIterator \<Rightarrow> AsyncIterator" where
  "iter_return it = (if has_return it then it\<lparr>pending := []\<rparr> else it)"

text \<open>
  An \<open>AbortSignal\<close> changes while the cursor awaits the iterator. The signal is given
  by the number of awaited \<open>next()\<close> calls that still complete before it fires:
  \<open>Some 0\<close> is an aborted signal, \<open>None\<close> one that never fires.
\<close>

datatype AbortSignal = AbortSignal "nat option"

fun aborted :: "AbortSignal \<Rightarrow> bool" where
  "aborted (AbortSignal n) = (n = Some 0)"

fun after_await :: "AbortSignal \<Rightarrow> AbortSignal" where
  "after_await (AbortSignal n) = AbortSignal (map_option (\<lambda>k. k - 1) n)"

record IteratorCursor =
  iter :: AsyncIterator
  lastIteratorResult :: "IteratorResult option"
  abort :: "AbortSignal option"

definition IteratorCursor_new :: "AsyncIterator \<Rightarrow> AbortSignal option \<Rightarrow> IteratorCursor" where
  "IteratorCursor_new iterator ab = \<lparr>iter = iterator, lastIteratorResult = None, abort = ab\<rparr>"

text \<open>\<open>this.#abort?.aborted === true\<close>\<close>

definition is_aborted :: "IteratorCursor \<Rightarrow> bool" where
  "is_aborted c = (case abort c of None \<Rightarrow> False | Some sig \<Rightarrow> aborted sig)"

text \<open>\<open>await this.#iter.next()\<close>: the result's value (\<open>None\<close> when done) and the cursor after the await.\<close>

definition await_iter_next :: "IteratorCursor \<Rightarrow> IteratorResult option \<times> IteratorCursor" where
  "await_iter_next c =
     (fst (iter_next (iter c)),
      c\<lparr>iter := snd (iter_next (iter c)), abort := map_option after_await (abort c)\<rparr>)"

definition cursor_next :: "IteratorCursor \<Rightarrow> IteratorResult option \<times> IteratorCursor" where
  "cursor_next c = (if is_aborted c then (None, c) else await_iter_next c)"

lemma await_iter_next_decreases:
  "fst (await_iter_next c) = Some x \<Longrightarrow>
   length (pending (iter (snd (await_iter_next c)))) < length (pending (iter c))"
  by (cases "pending (iter c)") (simp_all add: await_iter_next_def iter_next_def)

lemma cursor_next_decreases:
  "fst (cursor_next c) = Some x \<Longrightarrow>
   length (pending (iter (snd (cursor_next c)))) < length (pending (iter c))"
  using await_iter_next_decreases [of c x] by (simp add: cursor_next_def split: if_splits)

text \<open>The three \<open>break\<close> conditions of the loop of \<open>nextBatch\<close>, after the result is pushed.\<close>

definition batch_breaks :: "Time \<Rightarrow> IteratorResult \<Rightarrow> bool" where
  "batch_breaks cutoffTime result =
     (case result of
        ProblemItem c p \<Rightarrow> True
      | StampItem stamp \<Rightarrow> compare stamp cutoffTime > 0
      | MessageEventItem c msgEvent \<Rightarrow> compare (receiveTime msgEvent) cutoffTime > 0)"

function nextBatch_loop ::
  "Time \<Rightarrow> IteratorResult list \<Rightarrow> IteratorCursor \<Rightarrow> IteratorResult list \<times> IteratorCursor" where
  "nextBatch_loop cutoffTime results c =
     (case fst (cursor_next c) of
        None \<Rightarrow> (results, snd (cursor_next c))
      | Some result \<Rightarrow>
          if batch_breaks cutoffTime result then (results @ [result], snd (cursor_next c))
          else nextBatch_loop cutoffTime (results @ [result]) (snd (cursor_next c)))"
  by pat_completeness auto
termination
  by (relation "measure (\<lambda>(cutoffTime, results, c). length (pending (iter c)))")
     (auto intro: cursor_next_decreases)

declare nextBatch_loop.simps [simp del]

text \<open>
  \<open>nextBatch(durationMs)\<close>: the promise rejects (\<open>Inl\<close>) when \<open>addTime\<close> throws, and
  resolves to \<open>undefined\<close> (\<open>Inr None\<close>) or to an array.
\<close>

definition nextBatch ::
  "int \<Rightarrow> IteratorCursor \<Rightarrow> (error + IteratorResult list option) \<times> IteratorCursor" where
  "nextBatch durationMs c =
     (case fst (cursor_next c) of
        None \<Rightarrow> (Inr None, snd (cursor_next c))
      | Some firstResult \<Rightarrow>
          (case firstResult of
             ProblemItem cid p \<Rightarrow> (Inr (Some [firstResult]), snd (cursor_next c))
           | StampItem stamp \<Rightarrow>
               (case addTime stamp \<lparr>sec = 0, nsec = durationMs * 1000000\<rparr> of
                  Inl e \<Rightarrow> (Inl e, snd (cursor_next c))
                | Inr cutoffTime \<Rightarrow>
                    (Inr (Some (fst (nextBatch_loop cutoffTime [firstResult] (snd (cursor_next c))))),
                     snd (nextBatch_loop cutoffTime [firstResult] (snd (cursor_next c)))))
           | MessageEventItem cid msgEvent \<Rightarrow>
               (case addTime (receiveTime msgEvent) \<lparr>sec = 0, nsec = durationMs * 1000000\<rparr> of
                  Inl e \<Rightarrow> (Inl e, snd (cursor_next c))
                | Inr cutoffTime \<Rightarrow>
                    (Inr (Some (fst (nextBatch_loop cutoffTime [firstResult] (snd (cursor_next c))))),
                     snd (nextBatch_loop cutoffTime [firstResult] (snd (cursor_next c)))))))"

text \<open>
  The test \<open>readUntil\<close> makes twice, on the stashed result and on each value pulled: a
  stamp at or after \<open>end\<close>, or a message event received after \<open>end\<close>.
\<close>

definition past_end :: "Time \<Rightarrow> IteratorResult \<Rightarrow> bool" where
  "past_end end_t v =
     (case v of
        StampItem stamp \<Rightarrow> compare stamp end_t \<ge> 0
      | MessageEventItem c msgEvent \<Rightarrow> compare (receiveTime msgEvent) end_t > 0
      | ProblemItem c p \<Rightarrow> False)"

function readUntil_loop ::
  "Time \<Rightarrow> IteratorResult list \<Rightarrow> IteratorCursor \<Rightarrow> IteratorResult list option \<times> IteratorCursor" where
  "readUntil_loop end_t results c =
     (if is_aborted (snd (await_iter_next c)) then (None, snd (await_iter_next c))
      else
        (case fst (await_iter_next c) of
           None \<Rightarrow> (Some results, snd (await_iter_next c))
         | Some v \<Rightarrow>
             if past_end end_t v
             then (Some results, (snd (await_iter_next c))\<lparr>lastIteratorResult := Some v\<rparr>)
             else readUntil_loop end_t (results @ [v]) (snd (await_iter_next c))))"
  by pat_completeness auto
termination
  by (relation "measure (\<lambda>(end_t, results, c). length (pending (iter c)))")
     (auto intro: await_iter_next_decreases)

declare readUntil_loop.simps [simp del]

definition readUntil ::
  "Time \<Rightarrow> IteratorCursor \<Rightarrow> IteratorResult list option \<times> IteratorCursor" where
  "readUntil end_t c =
     (if is_aborted c then (None, c)
      else
        (case lastIteratorResult c of
           None \<Rightarrow> readUntil_loop end_t [] c
         | Some lastResult \<Rightarrow>
             if past_end end_t lastResult then (Some [], c)
             else readUntil_loop end_t [lastResult] (c\<lparr>lastIteratorResult := None\<rparr>)))"

text \<open>\<open>end()\<close>: \<open>await this.#iter.return?.()\<close>\<close>

definition cursor_end :: "IteratorCursor \<Rightarrow> IteratorCursor" where
  "cursor_end c = c\<lparr>iter := iter_return (iter c)\<rparr>"

section \<open>Worker-backed source (WorkerIterableSource.ts)\<close>

text \<open>
  \<open>messageIterator\<close> of the foreground wrapper reads the worker's cursor in batches of
  17 ms and re-emits each item. Every call on its cursor object is forwarded to the
  \<open>IteratorCursor\<close> the worker built around the source's iterator, so the loop is
  written over that cursor. A batch takes at least one item from the iterator, which
  is why the loop ends.
\<close>

lemma nextBatch_loop_pending_le:
  "length (pending (iter (snd (nextBatch_loop t rs c)))) \<le> length (pending (iter c))"
proof (induction t rs c rule: nextBatch_loop.induct)
  case (1 cutoffTime results c)
  show ?case
  proof (cases "fst (cursor_next c)")
    case None
    then show ?thesis
      by (simp add: nextBatch_loop.simps [of cutoffTime results c] cursor_next_def
          await_iter_next_def iter_next_def split: if_splits list.splits)
  next
    case (Some result)
    then have d: "length (pending (iter (snd (cursor_next c)))) < length (pending (iter c))"
      by (rule cursor_next_decreases)
    show ?thesis
    proof (cases "batch_breaks cutoffTime result")
      case True
      with Some d show ?thesis by (simp add: nextBatch_loop.simps [of cutoffTime results c])
    next
      case False
      with Some d 1 [OF Some False] show ?thesis
        by (simp add: nextBatch_loop.simps [of cutoffTime results c])
    qed
  qed
qed

lemma nextBatch_consumes:
  "fst (nextBatch d c) = Inr (Some results) \<Longrightarrow>
   length (pending (iter (snd (nextBatch d c)))) < length (pending (iter c))"
proof (cases "fst (cursor_next c)")
  case None
  assume "fst (nextBatch d c) = Inr (Some results)"
  with None show ?thesis by (simp add: nextBatch_def)
next
  case (Some firstResult)
  assume r: "fst (nextBatch d c) = Inr (Some results)"
  have dec: "length (pending (iter (snd (cursor_next c)))) < length (pending (iter c))"
    using Some by (rule cursor_next_decreases)
  show ?thesis
    using r Some dec nextBatch_loop_pending_le [of _ "[firstResult]" "snd (cursor_next c)"]
    by (auto simp: nextBatch_def split: IteratorResult.splits sum.splits intro: le_less_trans)
qed

text \<open>
  The loop and its \<open>finally\<close>: the items yielded, the error the generator ends with if
  \<open>nextBatch\<close> rejects, and the cursor after \<open>end()\<close>.
\<close>

function worker_messageIterator_loop ::
  "IteratorCursor \<Rightarrow> IteratorResult list \<times> error option \<times> IteratorCursor" where
  "worker_messageIterator_loop c =
     (case fst (nextBatch 17 c) of
        Inl e \<Rightarrow> ([], Some e, cursor_end (snd (nextBatch 17 c)))
      | Inr None \<Rightarrow> ([], None, cursor_end (snd (nextBatch 17 c)))
      | Inr (Some results) \<Rightarrow>
          if length results = 0 then ([], None, cursor_end (snd (nextBatch 17 c)))
          else
            (results @ fst (worker_messageIterator_loop (snd (nextBatch 17 c))),
             snd (worker_messageIterator_loop (snd (nextBatch 17 c)))))"
  by pat_completeness auto
termination
  by (relation "measure (\<lambda>c. length (pending (iter c)))") (auto intro: nextBatch_consumes)

declare worker_messageIterator_loop.simps [simp del]

text \<open>
  \<open>messageIterator(args)\<close> on an initialized wrapper: \<open>args\<close> carries no abort signal, so
  the worker's cursor is built around the source's iterator with none.
\<close>

definition worker_messageIterator ::
  "AsyncIterator \<Rightarrow> IteratorResult list \<times> error option \<times> IteratorCursor" where
  "worker_messageIterator source_iterator =
     worker_messageIterator_loop (IteratorCursor_new source_iterator None)"

section \<open>Range algebra (util/CachedFilelike/ranges.ts over intervals-fn)\<close>

record Range =
  range_start :: int
  range_end :: int

text \<open>
  Modelled from the spec: the functions of the intervals-fn package that ranges.ts and
  getNewConnection.ts call; the package is not among the sources. Section 4.A: operations
  on sorted lists of disjoint half-open integer intervals: two intervals overlap when they share a point;
  \<open>isBefore a b\<close> when \<open>a\<close> ends no later than \<open>b\<close> starts; \<open>isDuring a b\<close> when \<open>a\<close>
  lies within \<open>b\<close>; \<open>intersect [bounds] ranges\<close> keeps the part of each range inside
  the bounds; \<open>complement bounds ranges\<close> turns the space before, between and after the
  sorted ranges into intervals, from the start of the bounds to their end.
\<close>

definition isOverlappingSimple :: "Range \<Rightarrow> Range \<Rightarrow> bool" where
  "isOverlappingSimple a b = (range_start b < range_end a \<and> range_end b > range_start a)"

definition isOverlapping :: "Range list \<Rightarrow> Range list \<Rightarrow> bool" where
  "isOverlapping as bs = list_ex (\<lambda>a. list_ex (\<lambda>b. isOverlappingSimple a b) bs) as"

definition isBefore :: "Range \<Rightarrow> Range \<Rightarrow> bool" where
  "isBefore a b = (range_end a \<le> range_start b)"

definition isDuring :: "Range \<Rightarrow> Range \<Rightarrow> bool" where
  "isDuring a b = (range_start a \<ge> range_start b \<and> range_end a \<le> range_end b)"

definition intersect1 :: "Range \<Rightarrow> Range list \<Rightarrow> Range list" where
  "intersect1 bounds ranges =
     map (\<lambda>r. \<lparr>range_start = max (range_start bounds) (range_start r),
               range_end = min (range_end bounds) (range_end r)\<rparr>)
         (filter (\<lambda>r. isOverlappingSimple bounds r) ranges)"

fun complement_from :: "int \<Rightarrow> Range list \<Rightarrow> int \<Rightarrow> Range list" where
  "complement_from prevEnd [] boundsEnd =
     (if prevEnd < boundsEnd then [\<lparr>range_start = prevEnd, range_end = boundsEnd\<rparr>] else [])"
| "complement_from prevEnd (r # rs) boundsEnd =
     (if prevEnd < range_start r then [\<lparr>range_start = prevEnd, range_end = range_start r\<rparr>] else [])
     @ complement_from (range_end r) rs boundsEnd"

definition complement :: "Range \<Rightarrow> Range list \<Rightarrow> Range list" where
  "complement bounds ranges = complement_from (range_start bounds) ranges (range_end bounds)"

fun isRangeCoveredByRanges :: "Range \<Rightarrow> Range list \<Rightarrow> bool" where
  "isRangeCoveredByRanges queryRange [] = False"
| "isRangeCoveredByRanges queryRange (r # rs) =
     (if isBefore queryRange r then False
      else if isDuring queryRange r then True
      else isRangeCoveredByRanges queryRange rs)"

definition missingRanges :: "Range \<Rightarrow> Range list \<Rightarrow> Range list" where
  "missingRanges bounds ranges = complement bounds (intersect1 bounds ranges)"

section \<open>Connection decision (util/CachedFilelike/getNewConnection.ts)\<close>

text \<open>
  \<open>maxRequestSize\<close> is the cache size, a number that is \<open>Infinity\<close> by default.
\<close>

datatype cache_size = Bytes int | Unlimited

fun exceeds :: "int \<Rightarrow> cache_size \<Rightarrow> bool" where
  "exceeds n (Bytes s) = (n > s)"
| "exceeds n Unlimited = False"

fun at_least :: "cache_size \<Rightarrow> int \<Rightarrow> bool" where
  "at_least (Bytes s) n = (s \<ge> n)"
| "at_least Unlimited n = True"

text \<open>\<open>Math.min(start + maxRequestSize, fileSize)\<close>\<close>

fun min_plus :: "int \<Rightarrow> cache_size \<Rightarrow> int \<Rightarrow> int" where
  "min_plus start' (Bytes s) fileSize' = min (start' + s) fileSize'"
| "min_plus start' Unlimited fileSize' = fileSize'"

record GetNewConnectionOptions =
  currentRemainingRange :: "Range option"
  readRequestRange :: "Range option"
  downloadedRanges :: "Range list"
  lastResolvedCallbackEnd :: "int option"
  maxRequestSize :: cache_size
  fileSize :: int
  continueDownloadingThreshold :: int

definition first_range :: "Range list \<Rightarrow> Range option" where
  "first_range rs = (case rs of [] \<Rightarrow> None | r # rest \<Rightarrow> Some r)"

definition getNewConnectionWithExistingReadRequest ::
  "Range option \<Rightarrow> Range \<Rightarrow> Range list \<Rightarrow> cache_size \<Rightarrow> int \<Rightarrow> int \<Rightarrow> error + Range option" where
  "getNewConnectionWithExistingReadRequest currentRemaining readRequest downloaded maxRequest
       fileSize' threshold =
     (if exceeds (range_end readRequest - range_start readRequest) maxRequest
      then Inl RangeExceedsMaxRequestSize
      else
        (case missingRanges readRequest downloaded of
           [] \<Rightarrow> Inl RangeFullyDownloaded
         | n0 # ns \<Rightarrow>
             (let startNewConnection =
                    (case currentRemaining of
                       None \<Rightarrow> True
                     | Some cur \<Rightarrow>
                         (if isOverlapping (n0 # ns) [cur]
                          then range_start cur + threshold < range_start n0
                          else True))
              in if startNewConnection then
                   (if at_least maxRequest fileSize' then
                      Inr (first_range
                             (missingRanges \<lparr>range_start = range_start n0, range_end = fileSize'\<rparr>
                                downloaded))
                    else if range_end n0 = range_end readRequest then
                      Inr (Some (n0\<lparr>range_end :=
                                      min_plus (range_start readRequest) maxRequest fileSize'\<rparr>))
                    else Inr (Some n0))
                 else Inr None)))"

definition getNewConnectionWithoutExistingConnection ::
  "Range list \<Rightarrow> int option \<Rightarrow> cache_size \<Rightarrow> int \<Rightarrow> Range option" where
  "getNewConnectionWithoutExistingConnection downloaded lastResolved maxRequest fileSize' =
     (let readAheadRange =
            (if at_least maxRequest fileSize' then
               (let potentialRange =
                      \<lparr>range_start = (case lastResolved of Some e \<Rightarrow> e | None \<Rightarrow> 0),
                       range_end = fileSize'\<rparr>
                in if isRangeCoveredByRanges potentialRange downloaded
                   then Some \<lparr>range_start = 0, range_end = fileSize'\<rparr>
                   else Some potentialRange)
             else
               (case lastResolved of
                  Some e \<Rightarrow> Some \<lparr>range_start = e, range_end = min_plus e maxRequest fileSize'\<rparr>
                | None \<Rightarrow> None))
      in case readAheadRange of
           Some r \<Rightarrow> first_range (missingRanges r downloaded)
         | None \<Rightarrow> None)"

definition getNewConnection :: "GetNewConnectionOptions \<Rightarrow> error + Range option" where
  "getNewConnection options =
     (case readRequestRange options of
        Some readRequest \<Rightarrow>
          getNewConnectionWithExistingReadRequest (currentRemainingRange options) readRequest
            (downloadedRanges options) (maxRequestSize options) (fileSize options)
            (continueDownloadingThreshold options)
      | None \<Rightarrow>
          (case currentRemainingRange options of
             None \<Rightarrow>
               Inr (getNewConnectionWithoutExistingConnection (downloadedRanges options)
                      (lastResolvedCallbackEnd options) (maxRequestSize options) (fileSize options))
           | Some cur \<Rightarrow> Inr None))"

section \<open>Cached filelike (util/CachedFilelike/index.ts)\<close>

text \<open>
  Modelled from the spec: \<open>VirtualLRUBuffer\<close> (its file is not among the sources).
  Section 4.B: the buffer tracks which byte ranges are resident; \<open>has_data\<close> requires
  every byte of the query to be resident; \<open>ranges_with_data\<close> lists the resident ranges
  in canonical form; \<open>slice\<close> returns the resident bytes of a range. The buffer is its
  size, its resident ranges and the bytes at each offset.
\<close>

record VirtualLRUBuffer =
  vb_size :: int
  vb_ranges :: "Range list"
  vb_bytes :: "int \<Rightarrow> 8 word"

text \<open>Modelled from the spec: a new \<open>VirtualLRUBuffer\<close> of a given size, with no byte resident.\<close>

definition vb_new :: "int \<Rightarrow> VirtualLRUBuffer" where
  "vb_new n = \<lparr>vb_size = n, vb_ranges = [], vb_bytes = (\<lambda>i. 0)\<rparr>"

text \<open>Modelled from the spec: \<open>hasData(start, end)\<close> of \<open>VirtualLRUBuffer\<close>, true when one resident range holds the whole query.\<close>

definition hasData :: "VirtualLRUBuffer \<Rightarrow> int \<Rightarrow> int \<Rightarrow> bool" where
  "hasData vb s e = list_ex (\<lambda>r. range_start r \<le> s \<and> e \<le> range_end r) (vb_ranges vb)"

text \<open>Modelled from the spec: \<open>getRangesWithData()\<close> of \<open>VirtualLRUBuffer\<close>, the resident ranges.\<close>

definition getRangesWithData :: "VirtualLRUBuffer \<Rightarrow> Range list" where
  "getRangesWithData vb = vb_ranges vb"

text \<open>Modelled from the spec: \<open>slice(start, end)\<close> of \<open>VirtualLRUBuffer\<close>, the bytes of a resident range.\<close>

definition slice :: "VirtualLRUBuffer \<Rightarrow> int \<Rightarrow> int \<Rightarrow> bytes" where
  "slice vb s e = map (vb_bytes vb) [s..e - 1]"

definition CACHE_BLOCK_SIZE :: int where
  "CACHE_BLOCK_SIZE = 1024 * 1024 * 100"

definition CLOSE_ENOUGH_BYTES_TO_NOT_START_NEW_CONNECTION :: int where
  "CLOSE_ENOUGH_BYTES_TO_NOT_START_NEW_CONNECTION = 1024 * 1024 * 5"

text \<open>
  A queued read request: its range, and an identifier standing for its promise's
  \<open>resolve\<close> and \<open>reject\<close>. A connection: the identity of its stream and its remaining
  range.
\<close>

record ReadRequest =
  req_range :: Range
  req_id :: nat

record Connection =
  stream :: nat
  remainingRange :: Range

text \<open>
  The object's private fields, and three records of its dealings with the outside:
  what \<open>fileReader.open()\<close> answers, the \<open>fileReader.fetch(offset, length)\<close> calls made
  so far (one per upstream connection opened), and the promises settled so far.
\<close>

record CachedFilelike =
  reader_open :: "error + int"
  cf_fileSize :: "int option"
  cacheSizeInBytes :: cache_size
  virtualBuffer :: VirtualLRUBuffer
  readRequests :: "ReadRequest list"
  cf_lastResolvedCallbackEnd :: "int option"
  cf_closed :: bool
  currentConnection :: "Connection option"
  fetches :: "(int \<times> int) list"
  settled :: "(nat \<times> (error + bytes)) list"

definition CachedFilelike_new :: "error + int \<Rightarrow> cache_size option \<Rightarrow> CachedFilelike" where
  "CachedFilelike_new rd cacheSize =
     \<lparr>reader_open = rd, cf_fileSize = None,
      cacheSizeInBytes = (case cacheSize of Some s \<Rightarrow> s | None \<Rightarrow> Unlimited),
      virtualBuffer = vb_new 0, readRequests = [], cf_lastResolvedCallbackEnd = None,
      cf_closed = False, currentConnection = None, fetches = [], settled = []\<rparr>"

text \<open>\<open>open()\<close>; the block layout of the buffer it allocates is not part of the model of the buffer.\<close>

definition cf_open :: "CachedFilelike \<Rightarrow> error + CachedFilelike" where
  "cf_open f =
     (case cf_fileSize f of
        Some n \<Rightarrow> Inr f
      | None \<Rightarrow>
          (case reader_open f of
             Inl e \<Rightarrow> Inl e
           | Inr n \<Rightarrow> Inr (f\<lparr>cf_fileSize := Some n, virtualBuffer := vb_new n\<rparr>)))"

text \<open>\<open>size()\<close> throws when \<open>!this.#fileSize\<close>: when the size is unset or zero.\<close>

definition cf_size :: "CachedFilelike \<Rightarrow> error + int" where
  "cf_size f =
     (case cf_fileSize f of
        None \<Rightarrow> Inl FilelikeNotOpened
      | Some n \<Rightarrow> if n = 0 then Inl FilelikeNotOpened else Inr n)"

text \<open>\<open>#setConnection(range)\<close>: the current stream is destroyed and replaced by a new fetch.\<close>

definition setConnection :: "Range \<Rightarrow> CachedFilelike \<Rightarrow> CachedFilelike" where
  "setConnection r f =
     f\<lparr>fetches := fetches f @ [(range_start r, range_end r - range_start r)],
       currentConnection := Some \<lparr>stream = length (fetches f), remainingRange = r\<rparr>\<rparr>"

text \<open>
  \<open>#updateState()\<close>: the error it throws, if any, and the object after it. The filter
  over the queue resolves each request whose range is resident.
\<close>

definition resolve_cache_hits :: "CachedFilelike \<Rightarrow> CachedFilelike" where
  "resolve_cache_hits f =
     fold (\<lambda>rq g.
             if hasData (virtualBuffer g) (range_start (req_range rq)) (range_end (req_range rq))
             then g\<lparr>cf_lastResolvedCallbackEnd := Some (range_end (req_range rq)),
                    settled := settled g @
                      [(req_id rq,
                        Inr (slice (virtualBuffer g) (range_start (req_range rq))
                               (range_end (req_range rq))))]\<rparr>
             else g\<lparr>readRequests := readRequests g @ [rq]\<rparr>)
          (readRequests f) (f\<lparr>readRequests := []\<rparr>)"

definition updateState :: "CachedFilelike \<Rightarrow> error option \<times> CachedFilelike" where
  "updateState f =
     (if cf_closed f then (None, f)
      else
        (let g = resolve_cache_hits f in
         case cf_size g of
           Inl e \<Rightarrow> (Some e, g)
         | Inr n \<Rightarrow>
             (case getNewConnection
                     \<lparr>currentRemainingRange = map_option remainingRange (currentConnection g),
                      readRequestRange =
                        (case readRequests g of [] \<Rightarrow> None | rq # rest \<Rightarrow> Some (req_range rq)),
                      downloadedRanges = getRangesWithData (virtualBuffer g),
                      lastResolvedCallbackEnd = cf_lastResolvedCallbackEnd g,
                      maxRequestSize = cacheSizeInBytes g,
                      fileSize = n,
                      continueDownloadingThreshold =
                        CLOSE_ENOUGH_BYTES_TO_NOT_START_NEW_CONNECTION\<rparr> of
                Inl e \<Rightarrow> (Some e, g)
              | Inr None \<Rightarrow> (None, g)
              | Inr (Some newConnection) \<Rightarrow> (None, setConnection newConnection g))))"

text \<open>
  \<open>read(offset, length)\<close>: how the returned promise stands once the call and its
  \<open>open().then\<close> callback have run, and the object then. The request's identifier is
  the number of promises created before it.
\<close>

datatype read_outcome = Resolved bytes | Rejected error | Pending

definition cf_read :: "int \<Rightarrow> int \<Rightarrow> nat \<Rightarrow> CachedFilelike \<Rightarrow> read_outcome \<times> CachedFilelike" where
  "cf_read offset len rid f =
     (if len = 0 then (Resolved [], f)
      else if offset < 0 \<or> len < 0 then (Rejected ReadInvalidInput, f)
      else if exceeds len (cacheSizeInBytes f) then (Rejected ReadExceedsCacheSize, f)
      else
        (case cf_open f of
           Inl e \<Rightarrow> (Rejected e, f)
         | Inr f1 \<Rightarrow>
             (case cf_size f1 of
                Inl e \<Rightarrow> (Rejected e, f1)
              | Inr n \<Rightarrow>
                  if offset + len > n then (Rejected ReadExceedsFileSize, f1)
                  else
                    (let f2 = f1\<lparr>readRequests := readRequests f1 @
                                  [\<lparr>req_range = \<lparr>range_start = offset, range_end = offset + len\<rparr>,
                                    req_id = rid\<rparr>]\<rparr>;
                         u = updateState f2
                     in (case map_of (settled (snd u)) rid of
                           Some (Inr b) \<Rightarrow> Resolved b
                         | Some (Inl e) \<Rightarrow> Rejected e
                         | None \<Rightarrow> (case fst u of Some e \<Rightarrow> Rejected e | None \<Rightarrow> Pending),
                         snd u)))))"

section \<open>Predicates and example inputs of the properties\<close>

text \<open>
  A cursor whose signal does not fire: it has no signal, or one that never aborts.
\<close>

definition never_fires :: "IteratorCursor \<Rightarrow> bool" where
  "never_fires c = (case abort c of None \<Rightarrow> True | Some sig \<Rightarrow> sig = AbortSignal None)"

text \<open>The stashed result of a cursor, as a list of at most one item.\<close>

definition stash_list :: "IteratorCursor \<Rightarrow> IteratorResult list" where
  "stash_list c = (case lastIteratorResult c of None \<Rightarrow> [] | Some v \<Rightarrow> [v])"

text \<open>
  The bound of \<open>readUntil(end)\<close> in the specification's words: a message event received
  at or before \<open>end\<close>, a stamp strictly before \<open>end\<close>; a problem carries no time.
\<close>

definition within_bound :: "Time \<Rightarrow> IteratorResult \<Rightarrow> bool" where
  "within_bound end_t v =
     (case v of
        MessageEventItem c msgEvent \<Rightarrow> compare (receiveTime msgEvent) end_t \<le> 0
      | StampItem stamp \<Rightarrow> compare stamp end_t < 0
      | ProblemItem c p \<Rightarrow> True)"

text \<open>An item that is a problem or carries a time with non-negative fields.\<close>

definition valid_time_item :: "IteratorResult \<Rightarrow> bool" where
  "valid_time_item x =
     (case x of
        ProblemItem cid p \<Rightarrow> True
      | StampItem stamp \<Rightarrow> 0 \<le> sec stamp \<and> 0 \<le> nsec stamp
      | MessageEventItem cid msgEvent \<Rightarrow>
          0 \<le> sec (receiveTime msgEvent) \<and> 0 \<le> nsec (receiveTime msgEvent))"

text \<open>
  Parsers and readers that accept every schema and decode a message to a byte view of
  its length: the external libraries of the examples.
\<close>

definition stub_parsers :: Parsers where
  "stub_parsers =
     \<lparr>textDecode = (\<lambda>b. []),
      parseIDL = (\<lambda>t. Inr []),
      parseRos2idl = (\<lambda>t. Inr []),
      parseMessageDefinition = (\<lambda>t. Inr []),
      OmgidlMessageReader = (\<lambda>n ds. Inr (\<lambda>b. Inr (JSTypedArray (length b)))),
      ROS2MessageReader = (\<lambda>ds. Inr (\<lambda>b. Inr (JSTypedArray (length b))))\<rparr>"

text \<open>A cursor with no abort signal over a generator that yields stamps at 1, 2, 3 and 4 ns.\<close>

definition stamps_cursor :: IteratorCursor where
  "stamps_cursor =
     IteratorCursor_new
       \<lparr>pending = [StampItem \<lparr>sec = 0, nsec = 1\<rparr>, StampItem \<lparr>sec = 0, nsec = 2\<rparr>,
                   StampItem \<lparr>sec = 0, nsec = 3\<rparr>, StampItem \<lparr>sec = 0, nsec = 4\<rparr>],
        has_return = True\<rparr>
       None"

text \<open>
  A cursor with no abort signal over a generator that yields stamps at 0, 5, 30 and
  1000 ms; one over a generator that yields nothing; one whose signal is aborted.
\<close>

definition batch_cursor :: IteratorCursor where
  "batch_cursor =
     IteratorCursor_new
       \<lparr>pending = [StampItem \<lparr>sec = 0, nsec = 0\<rparr>, StampItem \<lparr>sec = 0, nsec = 5000000\<rparr>,
                   StampItem \<lparr>sec = 0, nsec = 30000000\<rparr>, StampItem \<lparr>sec = 1, nsec = 0\<rparr>],
        has_return = True\<rparr>
       None"

definition empty_cursor :: IteratorCursor where
  "empty_cursor = IteratorCursor_new \<lparr>pending = [], has_return = True\<rparr> None"

definition aborted_cursor :: IteratorCursor where
  "aborted_cursor =
     IteratorCursor_new
       \<lparr>pending = [StampItem \<lparr>sec = 0, nsec = 0\<rparr>], has_return = True\<rparr>
       (Some (AbortSignal (Some 0)))"

text \<open>The receive times of the message events among the items an iterator yields, in order.\<close>

fun message_event_time :: "IteratorResult \<Rightarrow> Time option" where
  "message_event_time (MessageEventItem c msgEvent) = Some (receiveTime msgEvent)"
| "message_event_time (ProblemItem c p) = None"
| "message_event_time (StampItem stamp) = None"

definition receive_times :: "IteratorResult list \<Rightarrow> Time list" where
  "receive_times items = List.map_filter message_event_time items"

text \<open>
  An MCAP file with one ros2msg schema, one "cdr" channel on the topic /a and four
  messages logged at 5, 3, 4 and 2 ns, as an uninitialised source; and the arguments
  that select the topics /a and /b, with no time bounds.
\<close>

definition example_schema :: Schema where
  "example_schema =
     \<lparr>schema_id = 1, schema_name = ''pkg/msg/A'', schema_encoding = ''ros2msg'',
      schema_data = [105, 110, 116]\<rparr>"

definition example_channel :: "nat \<Rightarrow> string \<Rightarrow> McapRecord" where
  "example_channel cid tp =
     ChannelRecord \<lparr>mc_id = cid, mc_topic = tp, mc_messageEncoding = ''cdr'',
                    mc_schemaId = 1, mc_metadata = []\<rparr>"

definition example_message :: "nat \<Rightarrow> nat \<Rightarrow> McapRecord" where
  "example_message cid t =
     MessageRecord \<lparr>channelId = cid, sequence = 0, logTime = t, msg_publishTime = t,
                    msg_data = [1, 2, 3]\<rparr>"

definition unsorted_source :: McapUnindexedIterableSource where
  "unsorted_source =
     \<lparr>options_size = 4096,
      options_stream =
        [Header ''ros2'', SchemaRecord example_schema, example_channel 1 ''/a'',
         example_message 1 5, example_message 1 3, example_message 1 4, example_message 1 2],
      msgEventsByChannel = None, mcap_start = None, mcap_end = None\<rparr>"

definition select_topics :: "string list \<Rightarrow> TopicSelection" where
  "select_topics tps = map (\<lambda>t. (t, \<lparr>sp_topic = t, preloadType = None\<rparr>)) tps"

definition iterate_topics :: "string list \<Rightarrow> MessageIteratorArgs" where
  "iterate_topics tps =
     \<lparr>arg_topics = select_topics tps, arg_start = None, arg_end = None,
      reverse = None, consumptionType = None\<rparr>"

text \<open>
  An MCAP file with messages on /a (channel 1) at 1, 3 and 7 ns and on /b (channel 2)
  at 2 and 5 ns, in log-time order.
\<close>

definition backfill_source :: McapUnindexedIterableSource where
  "backfill_source =
     \<lparr>options_size = 4096,
      options_stream =
        [Header ''ros2'', SchemaRecord example_schema, example_channel 1 ''/a'',
         example_channel 2 ''/b'',
         example_message 1 1, example_message 2 2, example_message 1 3,
         example_message 2 5, example_message 1 7],
      msgEventsByChannel = None, mcap_start = None, mcap_end = None\<rparr>"

text \<open>The source a successful \<open>initialize\<close> leaves behind.\<close>

definition initialized :: "Parsers \<Rightarrow> McapUnindexedIterableSource \<Rightarrow> McapUnindexedIterableSource option" where
  "initialized P src = (case mcap_initialize P src of Inl e \<Rightarrow> None | Inr r \<Rightarrow> Some (snd r))"

text \<open>
  A bag with one connection on /chatter and two messages of four bytes, opened from a
  file, with a ROS 1 parser and reader that accept every definition.
\<close>

definition stub_rosbag :: RosbagParsers where
  "stub_rosbag =
     \<lparr>ros1_parseMessageDefinition = (\<lambda>t. Inr []),
      ROS1MessageReader = (\<lambda>ds. Inr (\<lambda>b. Inr (JSTypedArray (length b))))\<rparr>"

definition example_bag :: Bag where
  "example_bag =
     \<lparr>connections =
        [(0, \<lparr>conn_topic = ''/chatter'', conn_type = Some ''std_msgs/String'',
              messageDefinition = ''string data''\<rparr>)],
      chunkInfos = [\<lparr>chunk_startTime = \<lparr>sec = 0, nsec = 1\<rparr>, chunk_endTime = \<lparr>sec = 0, nsec = 2\<rparr>\<rparr>],
      bag_startTime = Some \<lparr>sec = 0, nsec = 1\<rparr>,
      bag_endTime = Some \<lparr>sec = 0, nsec = 2\<rparr>,
      bag_native_iterator =
        (\<lambda>tps rev st.
           [\<lparr>bag_connectionId = 0, bag_topic = ''/chatter'', timestamp = \<lparr>sec = 0, nsec = 1\<rparr>,
             bag_data = [1, 2, 3, 4]\<rparr>,
            \<lparr>bag_connectionId = 0, bag_topic = ''/chatter'', timestamp = \<lparr>sec = 0, nsec = 2\<rparr>,
             bag_data = [5, 6, 7, 8]\<rparr>])\<rparr>"

text \<open>The \<open>sizeInBytes\<close> of the message events among the items an iterator yields.\<close>

definition sizes_in_bytes :: "IteratorResult list \<Rightarrow> jsnumber list" where
  "sizes_in_bytes items =
     List.map_filter
       (\<lambda>item. case item of
                  MessageEventItem c msgEvent \<Rightarrow> Some (sizeInBytes msgEvent)
                | ProblemItem c p \<Rightarrow> None
                | StampItem stamp \<Rightarrow> None)
       items"

text \<open>
  The form of the downloaded ranges that \<open>getRangesWithData\<close> returns: sorted by
  start, pairwise disjoint, none empty. \<open>chain p rs\<close> says so for ranges that start at or
  after \<open>p\<close>.
\<close>

fun chain :: "int \<Rightarrow> Range list \<Rightarrow> bool" where
  "chain p [] = True"
| "chain p (r # rs) = (p \<le> range_start r \<and> range_start r < range_end r \<and> chain (range_end r) rs)"

definition canonical :: "Range list \<Rightarrow> bool" where
  "canonical rs = (case rs of [] \<Rightarrow> True | r # rest \<Rightarrow> chain (range_start r) rs)"

text \<open>
  The three conditions of the decision, for the remaining range of the current
  connection (if any), the missing ranges \<open>ns\<close> of the read request and the first of
  them \<open>n0\<close>: there is no current connection, or its remaining range does not
  overlap the missing ranges, or it starts more than the threshold before \<open>n0\<close>.
\<close>

definition opens_new_connection :: "Range option \<Rightarrow> Range list \<Rightarrow> Range \<Rightarrow> int \<Rightarrow> bool" where
  "opens_new_connection cur ns n0 threshold =
     (case cur of
        None \<Rightarrow> True
      | Some c \<Rightarrow> \<not> isOverlapping ns [c] \<or> range_start c + threshold < range_start n0)"

text \<open>A range holds the byte at offset \<open>x\<close>.\<close>

definition covers :: "Range \<Rightarrow> int \<Rightarrow> bool" where
  "covers r x = (range_start r \<le> x \<and> x < range_end r)"

text \<open>A filelike over a file of 10 bytes with a cache of 100 bytes, before \<open>open\<close>.\<close>

definition example_filelike :: CachedFilelike where
  "example_filelike = CachedFilelike_new (Inr 10) (Some (Bytes 100))"

lemma estimate_constants:
  "COMPRESSED_POINTER_SIZE = 4" "OBJECT_BASE_SIZE = 12" "ARRAY_BASE_SIZE = 24"
  "TYPED_ARRAY_BASE_SIZE = 100" "SMALL_INTEGER_SIZE = 4" "HEAP_NUMBER_SIZE = 16"
  by (simp_all add: COMPRESSED_POINTER_SIZE_def OBJECT_BASE_SIZE_def ARRAY_BASE_SIZE_def
      TYPED_ARRAY_BASE_SIZE_def SMALL_INTEGER_SIZE_def HEAP_NUMBER_SIZE_def)

section \<open>Properties of the memory estimator\<close>

lemma floor_rat_numeral_div: "\<lfloor>numeral a / numeral b :: rat\<rfloor> = numeral a div numeral b"
  using floor_divide_of_int_eq [of "numeral a" "numeral b", where ?'a = rat] by simp

lemma ceiling_rat_numeral_div:
  "\<lceil>numeral a / numeral b :: rat\<rceil> = - ((- numeral a) div numeral b)"
  using floor_divide_of_int_eq [of "- numeral a" "numeral b", where ?'a = rat]
  by (simp add: ceiling_def)

lemma reduce_values_list_all2:
  "list_all2 (\<lambda>v n. estimateObjectSize v = Inr n) xs ns \<Longrightarrow> reduce_values xs = Inr (sum_list ns)"
  by (induction xs ns rule: list_all2_induct) simp_all

lemma reduce_values_throws:
  "list_ex (\<lambda>v. isl (estimateObjectSize v)) xs \<Longrightarrow> isl (reduce_values xs)"
  by (induction xs) (auto split: sum.splits)

text \<open>
  Claim C9, as the code has it. \<open>estimateObjectSize\<close> returns 4 for null, undefined and
  booleans; for a number it returns 4 when \<open>Number.isInteger\<close> holds, whatever the
  magnitude, and \<open>HEAP_NUMBER_SIZE = 8 + 2 * 4 = 16\<close> otherwise; 16 for a bigint;
  \<open>4 + 12 + 4 * ceil(L / 4)\<close> for a string of length \<open>L\<close>; \<open>100 + byteLength\<close> for a
  typed array view; for an array whose elements have the estimates \<open>ns\<close>,
  \<open>4 + 24 + sum ns\<close>, and it throws when an element's estimate throws; it throws for
  functions and symbols.
\<close>

theorem estimateObjectSize_by_type:
  "estimateObjectSize JSNull = Inr 4
   \<and> estimateObjectSize JSUndefined = Inr 4
   \<and> estimateObjectSize (JSBoolean b) = Inr 4
   \<and> estimateObjectSize (JSNumber x) = Inr (if isInteger x then 4 else 16)
   \<and> estimateObjectSize (JSBigInt i) = Inr 16
   \<and> estimateObjectSize (JSString s) = Inr (4 + 12 + 4 * \<lceil>rat_of_nat (length s) / 4\<rceil>)
   \<and> estimateObjectSize (JSTypedArray byteLength) = Inr (100 + int byteLength)
   \<and> (list_all2 (\<lambda>v n. estimateObjectSize v = Inr n) xs ns \<longrightarrow>
        estimateObjectSize (JSArray xs) = Inr (4 + 24 + sum_list ns))
   \<and> (list_ex (\<lambda>v. isl (estimateObjectSize v)) xs \<longrightarrow> isl (estimateObjectSize (JSArray xs)))
   \<and> estimateObjectSize JSFunction = Inl CannotEstimateSize
   \<and> estimateObjectSize JSSymbol = Inl CannotEstimateSize"
  using reduce_values_throws [of xs]
  by (auto simp: estimate_constants reduce_values_list_all2 split: sum.splits)

text \<open>
  The theorem at concrete values: the integer \<open>2^32\<close>, the number 2.5, the string
  "hello", an array of three values, and an array that holds a function.
\<close>

theorem estimateObjectSize_by_type_witness:
  "estimateObjectSize (JSNumber (Finite 4294967296)) = Inr 4
   \<and> estimateObjectSize (JSNumber (Finite (5 / 2))) = Inr 16
   \<and> estimateObjectSize (JSString ''hello'') = Inr 24
   \<and> estimateObjectSize (JSArray [JSNumber (Finite 3), JSString ''hello'', JSBigInt 7])
       = Inr (4 + 24 + sum_list [4, 24, 16])
   \<and> isl (estimateObjectSize (JSArray [JSNull, JSFunction]))"
  using estimateObjectSize_by_type [where x = "Finite 4294967296" and xs = "[JSNull, JSFunction]"]
        estimateObjectSize_by_type [where x = "Finite (5 / 2)" and s = "''hello''"
           and xs = "[JSNumber (Finite 3), JSString ''hello'', JSBigInt 7]" and ns = "[4, 24, 16]"]
  by (simp add: isInteger_def estimate_constants floor_rat_numeral_div ceiling_rat_numeral_div)

text \<open>
  Claim C9 as the specification words it gives 12 bytes to a bigint and to a number
  that is no small integer. The code gives a bigint and the number 2.5 16 bytes, and
  the integer \<open>2^32\<close>, which is beyond any small-integer range, 4 bytes.
\<close>

theorem estimateObjectSize_heap_number_counterexample:
  "estimateObjectSize (JSBigInt 1) = Inr 16 \<and> estimateObjectSize (JSBigInt 1) \<noteq> Inr 12
   \<and> estimateObjectSize (JSNumber (Finite (5 / 2))) = Inr 16
   \<and> estimateObjectSize (JSNumber (Finite 4294967296)) = Inr 4"
  by (simp add: isInteger_def estimate_constants floor_rat_numeral_div ceiling_rat_numeral_div)

section \<open>Properties of the channel parser\<close>

text \<open>
  Claim C8. \<open>parseChannel\<close> fails (throws) for every message encoding other than "cdr";
  for a "cdr" channel it fails when the schema is absent or its encoding is not one of
  "ros2msg", "ros2idl", "omgidl"; and it fails with "Schema for ... is empty" for a
  channel whose schema has one of the encodings ros1msg, ros2msg, ros2idl and an empty
  body, unless the schema name is a well-known empty type or the caller passes
  \<open>allowEmptySchema\<close>. In those two exceptional cases an empty ros2msg schema on a "cdr"
  channel is parsed: the result is the reader and the datatypes the parsers give.
\<close>

theorem parseChannel_failures:
  "(messageEncoding channel \<noteq> ''cdr'' \<longrightarrow> isl (parseChannel P channel options))
   \<and> (messageEncoding channel = ''cdr''
        \<and> (case schema channel of
              None \<Rightarrow> True
            | Some s \<Rightarrow> schema_encoding s \<notin> {''ros2msg'', ''ros2idl'', ''omgidl''})
        \<longrightarrow> isl (parseChannel P channel options))
   \<and> (schema channel = Some sch
        \<and> schema_encoding sch \<in> {''ros1msg'', ''ros2msg'', ''ros2idl''}
        \<and> schema_data sch = []
        \<and> schema_name sch \<notin> set KNOWN_EMPTY_SCHEMA_NAMES
        \<and> options \<noteq> Some True
        \<longrightarrow> parseChannel P channel options = Inl (SchemaIsEmpty (schema_name sch)))
   \<and> (messageEncoding channel = ''cdr''
        \<and> schema channel = Some sch
        \<and> schema_encoding sch = ''ros2msg''
        \<and> schema_data sch = []
        \<and> (schema_name sch \<in> set KNOWN_EMPTY_SCHEMA_NAMES \<or> options = Some True)
        \<and> parseMessageDefinition P (textDecode P []) = Inr defs
        \<and> ROS2MessageReader P defs = Inr reader
        \<longrightarrow> parseChannel P channel options
            = Inr \<lparr>deserialize = reader,
                   pc_datatypes = parsedDefinitionsToDatatypes defs (Some (schema_name sch))\<rparr>)"
  by (auto simp: parseChannel_def Let_def split: option.splits sum.splits)

text \<open>
  The theorem on a "json" channel, a "cdr" channel with a protobuf schema, a "cdr"
  channel with an empty ros2msg schema named pkg/Msg, and one named std_msgs/msg/Empty.
\<close>

theorem parseChannel_failures_witness:
  "isl (parseChannel stub_parsers \<lparr>messageEncoding = ''json'', schema = None\<rparr> None)
   \<and> isl (parseChannel stub_parsers
           \<lparr>messageEncoding = ''cdr'',
            schema = Some \<lparr>schema_id = 1, schema_name = ''pkg/Msg'',
                           schema_encoding = ''protobuf'', schema_data = [1]\<rparr>\<rparr> None)
   \<and> parseChannel stub_parsers
         \<lparr>messageEncoding = ''cdr'',
          schema = Some \<lparr>schema_id = 1, schema_name = ''pkg/Msg'',
                         schema_encoding = ''ros2msg'', schema_data = []\<rparr>\<rparr> None
       = Inl (SchemaIsEmpty ''pkg/Msg'')
   \<and> \<not> isl (parseChannel stub_parsers
           \<lparr>messageEncoding = ''cdr'',
            schema = Some \<lparr>schema_id = 1, schema_name = ''std_msgs/msg/Empty'',
                           schema_encoding = ''ros2msg'', schema_data = []\<rparr>\<rparr> None)"
  using parseChannel_failures [of "\<lparr>messageEncoding = ''json'', schema = None\<rparr>" stub_parsers None]
    parseChannel_failures [of "\<lparr>messageEncoding = ''cdr'',
            schema = Some \<lparr>schema_id = 1, schema_name = ''pkg/Msg'',
                           schema_encoding = ''protobuf'', schema_data = [1]\<rparr>\<rparr>" stub_parsers None]
    parseChannel_failures [of "\<lparr>messageEncoding = ''cdr'',
          schema = Some \<lparr>schema_id = 1, schema_name = ''pkg/Msg'',
                         schema_encoding = ''ros2msg'', schema_data = []\<rparr>\<rparr>" stub_parsers None
          "\<lparr>schema_id = 1, schema_name = ''pkg/Msg'',
                         schema_encoding = ''ros2msg'', schema_data = []\<rparr>"]
    parseChannel_failures [of "\<lparr>messageEncoding = ''cdr'',
            schema = Some \<lparr>schema_id = 1, schema_name = ''std_msgs/msg/Empty'',
                           schema_encoding = ''ros2msg'', schema_data = []\<rparr>\<rparr>" stub_parsers None
            "\<lparr>schema_id = 1, schema_name = ''std_msgs/msg/Empty'',
                           schema_encoding = ''ros2msg'', schema_data = []\<rparr>" "[]"
            "\<lambda>b. Inr (JSTypedArray (length b))"]
  by (simp add: stub_parsers_def KNOWN_EMPTY_SCHEMA_NAMES_def)

section \<open>Properties of the iterator cursor\<close>

subsection \<open>nextBatch\<close>

lemma nextBatch_loop_extends:
  "\<exists>ys. fst (nextBatch_loop t rs c) = rs @ ys"
proof (induction t rs c rule: nextBatch_loop.induct)
  case (1 cutoffTime results c)
  show ?case
  proof (cases "fst (cursor_next c)")
    case None
    then show ?thesis by (simp add: nextBatch_loop.simps [of cutoffTime results c])
  next
    case (Some result)
    show ?thesis
    proof (cases "batch_breaks cutoffTime result")
      case True
      with Some show ?thesis by (simp add: nextBatch_loop.simps [of cutoffTime results c])
    next
      case False
      with Some 1 obtain ys where
        "fst (nextBatch_loop cutoffTime (results @ [result]) (snd (cursor_next c))) = (results @ [result]) @ ys"
        by blast
      with Some False show ?thesis by (simp add: nextBatch_loop.simps [of cutoffTime results c])
    qed
  qed
qed

lemma cursor_next_None_iff:
  "fst (cursor_next c) = None \<longleftrightarrow> is_aborted c \<or> pending (iter c) = []"
  by (cases "pending (iter c)") (simp_all add: cursor_next_def await_iter_next_def iter_next_def)

lemma cursor_next_Some:
  "\<not> is_aborted c \<Longrightarrow> pending (iter c) = x # xs \<Longrightarrow> fst (cursor_next c) = Some x"
  by (simp add: cursor_next_def await_iter_next_def iter_next_def)

lemma addTime_ok:
  "0 \<le> sec t \<Longrightarrow> 0 \<le> nsec t \<Longrightarrow> 0 \<le> d \<Longrightarrow>
   \<exists>t'. addTime t \<lparr>sec = 0, nsec = d * 1000000\<rparr> = Inr t'"
proof -
  assume a: "0 \<le> sec t" "0 \<le> nsec t" "0 \<le> d"
  then have "0 \<le> (nsec t + d * 1000000) div 1000000000"
    by (simp add: pos_imp_zdiv_nonneg_iff)
  moreover have "0 \<le> (nsec t + d * 1000000) mod 1000000000" by simp
  ultimately show ?thesis using a by (simp add: addTime_def fixTime_def Let_def)
qed

text \<open>
  The outcomes of \<open>nextBatch\<close>: never an empty array; \<open>undefined\<close> exactly when the
  cursor is aborted or the iterator is exhausted at the first pull; a rejection only
  from \<open>addTime\<close>; and an array that starts with the first item \<open>x\<close> when the cursor is
  not aborted, the duration is non-negative and \<open>x\<close> is a problem or carries a time
  with non-negative fields.
\<close>

lemma nextBatch_outcomes:
  "fst (nextBatch durationMs c) \<noteq> Inr (Some [])
   \<and> (fst (nextBatch durationMs c) = Inr None \<longleftrightarrow> is_aborted c \<or> pending (iter c) = [])
   \<and> (fst (nextBatch durationMs c) = Inl e \<longrightarrow> e = InvalidTime)
   \<and> (\<not> is_aborted c \<and> pending (iter c) = x # xs \<and> 0 \<le> durationMs
        \<and> (case x of
              ProblemItem cid p \<Rightarrow> True
            | StampItem stamp \<Rightarrow> 0 \<le> sec stamp \<and> 0 \<le> nsec stamp
            | MessageEventItem cid msgEvent \<Rightarrow>
                0 \<le> sec (receiveTime msgEvent) \<and> 0 \<le> nsec (receiveTime msgEvent))
        \<longrightarrow> (\<exists>ys. fst (nextBatch durationMs c) = Inr (Some (x # ys))))"
proof (cases "fst (cursor_next c)")
  case None
  then show ?thesis
    using cursor_next_None_iff [of c] by (auto simp: nextBatch_def)
next
  case (Some firstResult)
  then have live: "\<not> is_aborted c" "pending (iter c) \<noteq> []"
    using cursor_next_None_iff [of c] by auto
  have first: "pending (iter c) = x # xs \<Longrightarrow> firstResult = x"
    using Some live cursor_next_Some [of c x xs] by simp
  show ?thesis
  proof (cases firstResult)
    case (ProblemItem cid p)
    with Some live first show ?thesis by (auto simp: nextBatch_def)
  next
    case (StampItem stamp)
    show ?thesis
    proof (cases "addTime stamp \<lparr>sec = 0, nsec = durationMs * 1000000\<rparr>")
      case (Inl err)
      then have "err = InvalidTime"
        by (auto simp: addTime_def fixTime_def Let_def split: if_splits)
      with Inl Some StampItem live first addTime_ok [of stamp durationMs] show ?thesis
        by (auto simp: nextBatch_def)
    next
      case (Inr cutoffTime)
      obtain ys where "fst (nextBatch_loop cutoffTime [firstResult] (snd (cursor_next c))) = [firstResult] @ ys"
        using nextBatch_loop_extends by blast
      with Inr Some StampItem live first show ?thesis
        by (auto simp: nextBatch_def)
    qed
  next
    case (MessageEventItem cid msgEvent)
    show ?thesis
    proof (cases "addTime (receiveTime msgEvent) \<lparr>sec = 0, nsec = durationMs * 1000000\<rparr>")
      case (Inl err)
      then have "err = InvalidTime"
        by (auto simp: addTime_def fixTime_def Let_def split: if_splits)
      with Inl Some MessageEventItem live first addTime_ok [of "receiveTime msgEvent" durationMs]
      show ?thesis
        by (auto simp: nextBatch_def)
    next
      case (Inr cutoffTime)
      obtain ys where "fst (nextBatch_loop cutoffTime [firstResult] (snd (cursor_next c))) = [firstResult] @ ys"
        using nextBatch_loop_extends by blast
      with Inr Some MessageEventItem live first show ?thesis
        by (auto simp: nextBatch_def)
    qed
  qed
qed

subsection \<open>readUntil\<close>

lemma within_bound_iff: "within_bound e v \<longleftrightarrow> \<not> past_end e v"
  by (cases v) (auto simp: within_bound_def past_end_def)

lemma never_fires_not_aborted: "never_fires c \<Longrightarrow> \<not> is_aborted c"
  by (auto simp: never_fires_def is_aborted_def split: option.splits)

lemma never_fires_await: "never_fires c \<Longrightarrow> never_fires (snd (await_iter_next c))"
  by (auto simp: never_fires_def await_iter_next_def split: option.splits)

lemma await_iter_next_Nil:
  "pending (iter c) = [] \<Longrightarrow>
   fst (await_iter_next c) = None \<and> pending (iter (snd (await_iter_next c))) = []"
  by (simp add: await_iter_next_def iter_next_def)

lemma await_iter_next_Cons:
  "pending (iter c) = x # xs \<Longrightarrow>
   fst (await_iter_next c) = Some x \<and> pending (iter (snd (await_iter_next c))) = xs"
  by (simp add: await_iter_next_def iter_next_def)

lemma await_iter_next_stash:
  "lastIteratorResult (snd (await_iter_next c)) = lastIteratorResult c"
  by (simp add: await_iter_next_def)

text \<open>
  The loop of \<open>readUntil\<close>, when the signal does not fire: it appends the longest
  prefix of the pending items that is within the bound, stashes the item after it (if
  there is one) and leaves the rest pending.
\<close>

lemma readUntil_loop_spec:
  "never_fires c \<Longrightarrow>
   fst (readUntil_loop e rs c) = Some (rs @ takeWhile (within_bound e) (pending (iter c)))
   \<and> pending (iter (snd (readUntil_loop e rs c))) = tl (dropWhile (within_bound e) (pending (iter c)))
   \<and> lastIteratorResult (snd (readUntil_loop e rs c))
       = (case dropWhile (within_bound e) (pending (iter c)) of
            [] \<Rightarrow> lastIteratorResult c
          | v # vs \<Rightarrow> Some v)
   \<and> never_fires (snd (readUntil_loop e rs c))"
proof (induction e rs c rule: readUntil_loop.induct)
  case (1 end_t results c)
  let ?c' = "snd (await_iter_next c)"
  have nf: "never_fires ?c'" using 1(2) by (rule never_fires_await)
  then have na: "\<not> is_aborted ?c'" by (rule never_fires_not_aborted)
  show ?case
  proof (cases "pending (iter c)")
    case Nil
    with na nf show ?thesis
      using await_iter_next_Nil [of c] await_iter_next_stash [of c]
      by (simp add: readUntil_loop.simps [of end_t results c])
  next
    case (Cons v vs)
    then have nx: "fst (await_iter_next c) = Some v" "pending (iter ?c') = vs"
      using await_iter_next_Cons [of c v vs] by simp_all
    show ?thesis
    proof (cases "past_end end_t v")
      case True
      then have "\<not> within_bound end_t v" by (simp add: within_bound_iff)
      with True na nf nx Cons show ?thesis
        by (simp add: readUntil_loop.simps [of end_t results c] never_fires_def)
    next
      case False
      have ih: "fst (readUntil_loop end_t (results @ [v]) ?c')
                  = Some ((results @ [v]) @ takeWhile (within_bound end_t) (pending (iter ?c')))
          \<and> pending (iter (snd (readUntil_loop end_t (results @ [v]) ?c')))
              = tl (dropWhile (within_bound end_t) (pending (iter ?c')))
          \<and> lastIteratorResult (snd (readUntil_loop end_t (results @ [v]) ?c'))
              = (case dropWhile (within_bound end_t) (pending (iter ?c')) of
                   [] \<Rightarrow> lastIteratorResult ?c'
                 | v # vs \<Rightarrow> Some v)
          \<and> never_fires (snd (readUntil_loop end_t (results @ [v]) ?c'))"
        using 1(1) [OF na nx(1) False nf] .
      have wb: "within_bound end_t v" using False by (simp add: within_bound_iff)
      have step: "readUntil_loop end_t results c
                    = readUntil_loop end_t (results @ [v]) ?c'"
        using na nx(1) False by (simp add: readUntil_loop.simps [of end_t results c])
      show ?thesis
        using ih wb unfolding step nx(2) await_iter_next_stash Cons by simp
    qed
  qed
qed

lemma takeWhile_dropWhile_tl:
  "takeWhile P xs @ (case dropWhile P xs of [] \<Rightarrow> [] | v # vs \<Rightarrow> [v]) @ tl (dropWhile P xs) = xs"
  by (induction xs) auto

lemma list_all_takeWhile: "list_all P (takeWhile P xs)"
  by (induction xs) auto

lemma takeWhile_prefix_stop:
  "list_all P ys \<Longrightarrow> \<not> P v \<Longrightarrow>
   takeWhile P (ys @ v # zs) = ys \<and> dropWhile P (ys @ v # zs) = v # zs"
  by (induction ys) auto

lemma readUntil_stash_past_end:
  "never_fires c \<Longrightarrow> lastIteratorResult c = Some l \<Longrightarrow> past_end e l \<Longrightarrow>
   readUntil e c = (Some [], c)"
  by (simp add: readUntil_def never_fires_not_aborted)

lemma readUntil_within:
  assumes nf: "never_fires c" and wb: "list_all (within_bound e) (stash_list c)"
  shows "fst (readUntil e c) = Some (stash_list c @ takeWhile (within_bound e) (pending (iter c)))
    \<and> pending (iter (snd (readUntil e c))) = tl (dropWhile (within_bound e) (pending (iter c)))
    \<and> lastIteratorResult (snd (readUntil e c))
        = (case dropWhile (within_bound e) (pending (iter c)) of [] \<Rightarrow> None | v # vs \<Rightarrow> Some v)
    \<and> never_fires (snd (readUntil e c))"
proof (cases "lastIteratorResult c")
  case None
  then have "readUntil e c = readUntil_loop e [] c"
    using nf by (simp add: readUntil_def never_fires_not_aborted)
  then show ?thesis
    using readUntil_loop_spec [OF nf, of e "[]"] None
    by (simp add: stash_list_def cong: list.case_cong)
next
  case (Some l)
  let ?c0 = "c\<lparr>lastIteratorResult := None\<rparr>"
  have nf0: "never_fires ?c0" using nf by (simp add: never_fires_def)
  have "\<not> past_end e l" using wb Some by (simp add: stash_list_def within_bound_iff)
  then have "readUntil e c = readUntil_loop e [l] ?c0"
    using nf Some by (simp add: readUntil_def never_fires_not_aborted)
  then show ?thesis
    using readUntil_loop_spec [OF nf0, of e "[l]"] Some
    by (simp add: stash_list_def cong: list.case_cong)
qed

text \<open>
  Claim C3. Let the cursor's signal not fire. Then \<open>readUntil(end)\<close> returns an array
  \<open>rs\<close> in which every message event was received at or before \<open>end\<close> and every stamp
  is strictly before \<open>end\<close>. No item is lost: the returned items, then the stashed
  item, then the items the iterator has still to yield are the items that were stashed
  and pending before the call, in order; and what is stashed after the call is past
  the bound. When the stash is empty or within the bound and the iterator yields \<open>ys\<close>
  within the bound and then \<open>v\<close> past it, the call returns the stash and \<open>ys\<close>, stashes
  \<open>v\<close> and leaves the items after \<open>v\<close> unread. A following \<open>readUntil(end')\<close> with the
  stashed item \<open>w\<close> within its bound returns an array whose first element is \<open>w\<close>.
\<close>

theorem readUntil_stash:
  assumes nf: "never_fires c"
  shows "\<exists>rs. fst (readUntil e c) = Some rs
          \<and> list_all (within_bound e) rs
          \<and> rs @ stash_list (snd (readUntil e c)) @ pending (iter (snd (readUntil e c)))
              = stash_list c @ pending (iter c)
          \<and> list_all (past_end e) (stash_list (snd (readUntil e c)))
          \<and> (list_all (within_bound e) (stash_list c) \<and> list_all (within_bound e) ys
               \<and> past_end e v \<and> pending (iter c) = ys @ v # zs
               \<longrightarrow> rs = stash_list c @ ys
                   \<and> lastIteratorResult (snd (readUntil e c)) = Some v
                   \<and> pending (iter (snd (readUntil e c))) = zs)
          \<and> (lastIteratorResult (snd (readUntil e c)) = Some w \<and> within_bound e' w
               \<longrightarrow> (\<exists>rs'. fst (readUntil e' (snd (readUntil e c))) = Some (w # rs')))"
proof -
  let ?c' = "snd (readUntil e c)"
  have nf': "never_fires ?c'"
  proof (cases "list_all (within_bound e) (stash_list c)")
    case True
    then show ?thesis using readUntil_within [OF nf] by blast
  next
    case False
    then obtain l where "lastIteratorResult c = Some l" "past_end e l"
      by (auto simp: stash_list_def within_bound_iff split: option.splits)
    then show ?thesis using readUntil_stash_past_end [OF nf] nf by simp
  qed
  have follow: "lastIteratorResult ?c' = Some w \<and> within_bound e' w
      \<longrightarrow> (\<exists>rs'. fst (readUntil e' ?c') = Some (w # rs'))"
  proof (intro impI, elim conjE)
    assume "lastIteratorResult ?c' = Some w" "within_bound e' w"
    then have "list_all (within_bound e') (stash_list ?c')" "stash_list ?c' = [w]"
      by (simp_all add: stash_list_def)
    then show "\<exists>rs'. fst (readUntil e' ?c') = Some (w # rs')"
      using readUntil_within [OF nf', of e'] by simp
  qed
  show ?thesis
  proof (cases "list_all (within_bound e) (stash_list c)")
    case True
    note w = readUntil_within [OF nf True]
    let ?P = "within_bound e"
    let ?xs = "pending (iter c)"
    have stash': "stash_list ?c' = (case dropWhile ?P ?xs of [] \<Rightarrow> [] | v # vs \<Rightarrow> [v])"
    proof (cases "dropWhile ?P ?xs")
      case Nil
      have "lastIteratorResult ?c' = None" using w unfolding Nil by simp
      then show ?thesis unfolding Nil by (simp add: stash_list_def)
    next
      case (Cons d ds)
      have "lastIteratorResult ?c' = Some d" using w unfolding Cons by simp
      then show ?thesis unfolding Cons by (simp add: stash_list_def)
    qed
    have past: "list_all (past_end e) (stash_list ?c')"
    proof (cases "dropWhile ?P ?xs")
      case Nil
      show ?thesis unfolding stash' Nil by simp
    next
      case (Cons d ds)
      then have "\<not> ?P d" using hd_dropWhile [of ?P ?xs] by auto
      then show ?thesis unfolding stash' Cons by (simp add: within_bound_iff)
    qed
    have cons: "(stash_list c @ takeWhile ?P ?xs) @ stash_list ?c' @ pending (iter ?c')
                  = stash_list c @ ?xs"
      using w stash' takeWhile_dropWhile_tl [of ?P ?xs] by simp
    have all: "list_all ?P (stash_list c @ takeWhile ?P ?xs)"
      using True list_all_takeWhile [of ?P ?xs] by simp
    have first: "list_all ?P ys \<and> past_end e v \<and> ?xs = ys @ v # zs
        \<longrightarrow> takeWhile ?P ?xs = ys \<and> lastIteratorResult ?c' = Some v \<and> pending (iter ?c') = zs"
    proof (intro impI, elim conjE)
      assume h: "list_all ?P ys" "past_end e v" "?xs = ys @ v # zs"
      then have nv: "\<not> ?P v" by (simp add: within_bound_iff)
      have td: "takeWhile ?P ?xs = ys" "dropWhile ?P ?xs = v # zs"
        using takeWhile_prefix_stop [OF h(1) nv, of zs] h(3) by simp_all
      have "lastIteratorResult ?c' = Some v" "pending (iter ?c') = zs"
        using w unfolding td by simp_all
      with td show "takeWhile ?P ?xs = ys \<and> lastIteratorResult ?c' = Some v \<and> pending (iter ?c') = zs"
        by simp
    qed
    have res: "fst (readUntil e c) = Some (stash_list c @ takeWhile ?P ?xs)"
      using w by simp
    show ?thesis
    proof (intro exI [of _ "stash_list c @ takeWhile ?P ?xs"] conjI)
      show "fst (readUntil e c) = Some (stash_list c @ takeWhile ?P ?xs)" by (rule res)
      show "list_all ?P (stash_list c @ takeWhile ?P ?xs)" by (rule all)
      show "(stash_list c @ takeWhile ?P ?xs) @ stash_list ?c' @ pending (iter ?c')
              = stash_list c @ ?xs" by (rule cons)
      show "list_all (past_end e) (stash_list ?c')" by (rule past)
      show "list_all ?P (stash_list c) \<and> list_all ?P ys \<and> past_end e v \<and> ?xs = ys @ v # zs
            \<longrightarrow> stash_list c @ takeWhile ?P ?xs = stash_list c @ ys
                \<and> lastIteratorResult ?c' = Some v \<and> pending (iter ?c') = zs"
        using first by simp
      show "lastIteratorResult ?c' = Some w \<and> within_bound e' w
            \<longrightarrow> (\<exists>rs'. fst (readUntil e' ?c') = Some (w # rs'))" by (rule follow)
    qed
  next
    case False
    then obtain l where l: "lastIteratorResult c = Some l" "past_end e l"
      by (auto simp: stash_list_def within_bound_iff split: option.splits)
    have r: "readUntil e c = (Some [], c)" using readUntil_stash_past_end [OF nf l] .
    have c': "snd (readUntil e c) = c" "fst (readUntil e c) = Some []" by (simp_all add: r)
    show ?thesis
    proof (intro exI [of _ "[]"] conjI)
      show "fst (readUntil e c) = Some []" by (rule c')
      show "list_all (within_bound e) []" by simp
      show "[] @ stash_list ?c' @ pending (iter ?c') = stash_list c @ pending (iter c)"
        by (simp add: c')
      show "list_all (past_end e) (stash_list ?c')" using l by (simp add: c' stash_list_def)
      show "list_all (within_bound e) (stash_list c) \<and> list_all (within_bound e) ys
            \<and> past_end e v \<and> pending (iter c) = ys @ v # zs
            \<longrightarrow> [] = stash_list c @ ys
                \<and> lastIteratorResult ?c' = Some v \<and> pending (iter ?c') = zs"
        using False by simp
      show "lastIteratorResult ?c' = Some w \<and> within_bound e' w
            \<longrightarrow> (\<exists>rs'. fst (readUntil e' ?c') = Some (w # rs'))" by (rule follow)
    qed
  qed
qed

text \<open>
  The theorem on the cursor over stamps at 1, 2, 3 and 4 ns: \<open>readUntil\<close> of 2 ns returns
  the stamp at 1 and stashes the stamp at 2; the following \<open>readUntil\<close> of 3 ns returns
  the stamp at 2 and stashes the stamp at 3.
\<close>

theorem readUntil_stash_witness:
  "never_fires stamps_cursor
   \<and> fst (readUntil \<lparr>sec = 0, nsec = 2\<rparr> stamps_cursor) = Some [StampItem \<lparr>sec = 0, nsec = 1\<rparr>]
   \<and> lastIteratorResult (snd (readUntil \<lparr>sec = 0, nsec = 2\<rparr> stamps_cursor))
       = Some (StampItem \<lparr>sec = 0, nsec = 2\<rparr>)
   \<and> pending (iter (snd (readUntil \<lparr>sec = 0, nsec = 2\<rparr> stamps_cursor)))
       = [StampItem \<lparr>sec = 0, nsec = 3\<rparr>, StampItem \<lparr>sec = 0, nsec = 4\<rparr>]
   \<and> fst (readUntil \<lparr>sec = 0, nsec = 3\<rparr> (snd (readUntil \<lparr>sec = 0, nsec = 2\<rparr> stamps_cursor)))
       = Some [StampItem \<lparr>sec = 0, nsec = 2\<rparr>]
   \<and> lastIteratorResult
        (snd (readUntil \<lparr>sec = 0, nsec = 3\<rparr> (snd (readUntil \<lparr>sec = 0, nsec = 2\<rparr> stamps_cursor))))
       = Some (StampItem \<lparr>sec = 0, nsec = 3\<rparr>)"
proof -
  have nf: "never_fires stamps_cursor"
    by (simp add: stamps_cursor_def IteratorCursor_new_def never_fires_def)
  show ?thesis
    using nf readUntil_stash [OF nf, of "\<lparr>sec = 0, nsec = 2\<rparr>" "[StampItem \<lparr>sec = 0, nsec = 1\<rparr>]"
        "StampItem \<lparr>sec = 0, nsec = 2\<rparr>"
        "[StampItem \<lparr>sec = 0, nsec = 3\<rparr>, StampItem \<lparr>sec = 0, nsec = 4\<rparr>]"
        "StampItem \<lparr>sec = 0, nsec = 2\<rparr>" "\<lparr>sec = 0, nsec = 3\<rparr>"]
    by (simp add: stamps_cursor_def IteratorCursor_new_def
        readUntil_def readUntil_loop.simps await_iter_next_def iter_next_def
        is_aborted_def past_end_def compare_def)
qed

subsection \<open>end\<close>

text \<open>
  After \<open>end()\<close> on a cursor whose iterator has a \<open>return\<close> method, \<open>next()\<close> and
  \<open>nextBatch\<close> resolve to \<open>undefined\<close>. \<open>readUntil\<close> does not: when the signal does not
  fire it returns an array, holding the stashed item if that is within the bound and
  nothing else.
\<close>

lemma next_after_end:
  "has_return (iter c) \<Longrightarrow>
   fst (cursor_next (cursor_end c)) = None \<and> fst (nextBatch durationMs (cursor_end c)) = Inr None"
  by (simp add: cursor_end_def iter_return_def nextBatch_def cursor_next_def
      await_iter_next_def iter_next_def is_aborted_def)

lemma readUntil_after_end:
  assumes "never_fires c" "has_return (iter c)"
  shows "fst (readUntil e (cursor_end c)) = Some (filter (within_bound e) (stash_list c))"
proof (cases "list_all (within_bound e) (stash_list c)")
  case True
  have nf: "never_fires (cursor_end c)" using assms(1) by (simp add: never_fires_def cursor_end_def)
  have st: "stash_list (cursor_end c) = stash_list c" by (simp add: stash_list_def cursor_end_def)
  have pe: "pending (iter (cursor_end c)) = []"
    using assms(2) by (simp add: cursor_end_def iter_return_def)
  show ?thesis
    using readUntil_within [OF nf, of e] True unfolding st pe
    by (simp add: list_all_iff filter_id_conv)
next
  case False
  then obtain l where l: "lastIteratorResult c = Some l" "past_end e l"
    by (auto simp: stash_list_def within_bound_iff split: option.splits)
  have nf: "never_fires (cursor_end c)" using assms(1) by (simp add: never_fires_def cursor_end_def)
  have "lastIteratorResult (cursor_end c) = Some l" using l by (simp add: cursor_end_def)
  then have "readUntil e (cursor_end c) = (Some [], cursor_end c)"
    using readUntil_stash_past_end [OF nf _ l(2)] by simp
  then show ?thesis using l by (simp add: stash_list_def within_bound_iff)
qed

text \<open>
  Claim C4 at a concrete cursor: over a generator with stamps still to yield and no
  abort signal, after \<open>end()\<close>, \<open>next()\<close> and \<open>nextBatch(17)\<close> return \<open>undefined\<close>, and
  \<open>readUntil\<close> returns the empty array, not \<open>undefined\<close>.
\<close>

theorem readUntil_after_end_returns_array:
  "fst (cursor_next (cursor_end stamps_cursor)) = None
   \<and> fst (nextBatch 17 (cursor_end stamps_cursor)) = Inr None
   \<and> fst (readUntil \<lparr>sec = 0, nsec = 5\<rparr> (cursor_end stamps_cursor)) = Some []
   \<and> fst (readUntil \<lparr>sec = 0, nsec = 5\<rparr> (cursor_end stamps_cursor)) \<noteq> None"
  by (simp add: stamps_cursor_def IteratorCursor_new_def cursor_end_def iter_return_def
      nextBatch_def cursor_next_def
      readUntil_def readUntil_loop.simps await_iter_next_def iter_next_def
      is_aborted_def past_end_def compare_def)

subsection \<open>nextBatch and the loop that consumes it\<close>

lemma never_fires_cursor_next:
  "never_fires c \<Longrightarrow>
   never_fires (snd (cursor_next c))
   \<and> (case fst (cursor_next c) of
        None \<Rightarrow> pending (iter c) = [] \<and> pending (iter (snd (cursor_next c))) = []
      | Some x \<Rightarrow> pending (iter c) = x # pending (iter (snd (cursor_next c))))"
  using never_fires_not_aborted [of c] never_fires_await [of c]
  by (cases "pending (iter c)")
     (simp_all add: cursor_next_def await_iter_next_def iter_next_def)

lemma nextBatch_loop_conserves:
  "never_fires c \<Longrightarrow>
   fst (nextBatch_loop t rs c) @ pending (iter (snd (nextBatch_loop t rs c))) = rs @ pending (iter c)
   \<and> never_fires (snd (nextBatch_loop t rs c))"
proof (induction t rs c rule: nextBatch_loop.induct)
  case (1 cutoffTime results c)
  note n = never_fires_cursor_next [OF 1(2)]
  show ?case
  proof (cases "fst (cursor_next c)")
    case None
    with n show ?thesis by (simp add: nextBatch_loop.simps [of cutoffTime results c])
  next
    case (Some result)
    show ?thesis
    proof (cases "batch_breaks cutoffTime result")
      case True
      with Some n show ?thesis by (simp add: nextBatch_loop.simps [of cutoffTime results c])
    next
      case False
      have "fst (nextBatch_loop cutoffTime (results @ [result]) (snd (cursor_next c)))
              @ pending (iter (snd (nextBatch_loop cutoffTime (results @ [result]) (snd (cursor_next c)))))
            = (results @ [result]) @ pending (iter (snd (cursor_next c)))
          \<and> never_fires (snd (nextBatch_loop cutoffTime (results @ [result]) (snd (cursor_next c))))"
        using 1(1) [OF Some False] n by simp
      with Some False n show ?thesis
        by (simp add: nextBatch_loop.simps [of cutoffTime results c])
    qed
  qed
qed

text \<open>A batch and the items left pending after it are the items that were pending before it.\<close>

lemma nextBatch_conserves:
  assumes "never_fires c" "fst (nextBatch d c) = Inr (Some rs)"
  shows "rs @ pending (iter (snd (nextBatch d c))) = pending (iter c)
         \<and> never_fires (snd (nextBatch d c))"
proof (cases "fst (cursor_next c)")
  case None
  with assms(2) show ?thesis by (simp add: nextBatch_def)
next
  case (Some firstResult)
  note n = never_fires_cursor_next [OF assms(1)]
  have nf1: "never_fires (snd (cursor_next c))" using n by simp
  have p: "pending (iter c) = firstResult # pending (iter (snd (cursor_next c)))"
    using n Some by simp
  note l = nextBatch_loop_conserves [OF nf1, of _ "[firstResult]"]
  show ?thesis
    using assms(2) Some nf1 p l
    by (auto simp: nextBatch_def split: IteratorResult.splits sum.splits)
qed

text \<open>
  The loop of \<open>WorkerIterableSource.messageIterator\<close> over a cursor whose signal does
  not fire yields every item the iterator had to yield, in order, and ends without an
  error.
\<close>

lemma worker_messageIterator_loop_yields_all:
  "never_fires c \<Longrightarrow> list_all valid_time_item (pending (iter c)) \<Longrightarrow>
   fst (worker_messageIterator_loop c) = pending (iter c)
   \<and> fst (snd (worker_messageIterator_loop c)) = None"
proof (induction c rule: worker_messageIterator_loop.induct)
  case (1 c)
  show ?case
  proof (cases "pending (iter c)")
    case Nil
    then have "fst (nextBatch 17 c) = Inr None"
      using nextBatch_outcomes [of 17 c] by simp
    with Nil show ?thesis by (simp add: worker_messageIterator_loop.simps [of c])
  next
    case (Cons x xs)
    have "\<not> is_aborted c" using "1.prems"(1) by (rule never_fires_not_aborted)
    moreover have "case x of
              ProblemItem cid p \<Rightarrow> True
            | StampItem stamp \<Rightarrow> 0 \<le> sec stamp \<and> 0 \<le> nsec stamp
            | MessageEventItem cid msgEvent \<Rightarrow>
                0 \<le> sec (receiveTime msgEvent) \<and> 0 \<le> nsec (receiveTime msgEvent)"
      using "1.prems"(2) Cons by (simp add: valid_time_item_def)
    ultimately obtain ys where r: "fst (nextBatch 17 c) = Inr (Some (x # ys))"
      using nextBatch_outcomes [of 17 c _ x xs] Cons by auto
    let ?c' = "snd (nextBatch 17 c)"
    have cons: "(x # ys) @ pending (iter ?c') = pending (iter c)" "never_fires ?c'"
      using nextBatch_conserves [OF "1.prems"(1) r] by simp_all
    then have "list_all valid_time_item (pending (iter ?c'))"
      using "1.prems"(2) by (metis list_all_append)
    then have ih: "fst (worker_messageIterator_loop ?c') = pending (iter ?c')
        \<and> fst (snd (worker_messageIterator_loop ?c')) = None"
      using "1.IH" [OF r _ _ cons(2)] by simp
    show ?thesis
      using r ih cons(1) by (simp add: worker_messageIterator_loop.simps [of c])
  qed
qed

text \<open>
  Claim C10. \<open>nextBatch(durationMs)\<close> never resolves to an empty array. It resolves to
  \<open>undefined\<close> exactly when the cursor is aborted or the iterator is exhausted before
  it yields a first item. Its promise rejects only when \<open>addTime\<close> throws on the first
  item's time. Otherwise it resolves to an array that starts with the first item: so
  it does for a cursor that is not aborted, whose iterator yields a first item \<open>x\<close>
  that is a problem or carries a time with non-negative fields, and a non-negative
  duration. And \<open>WorkerIterableSource.messageIterator\<close>, which stops at an empty or
  undefined batch, drops no message: over an iterator whose items are problems or
  carry times with non-negative fields it yields every item, in order, without error.
\<close>

theorem nextBatch_never_empty:
  "fst (nextBatch durationMs c) \<noteq> Inr (Some [])
   \<and> (fst (nextBatch durationMs c) = Inr None \<longleftrightarrow> is_aborted c \<or> pending (iter c) = [])
   \<and> (fst (nextBatch durationMs c) = Inl e \<longrightarrow> e = InvalidTime)
   \<and> (\<not> is_aborted c \<and> pending (iter c) = x # xs \<and> 0 \<le> durationMs \<and> valid_time_item x
        \<longrightarrow> (\<exists>ys. fst (nextBatch durationMs c) = Inr (Some (x # ys))))
   \<and> (list_all valid_time_item (pending source_iterator)
        \<longrightarrow> fst (worker_messageIterator source_iterator) = pending source_iterator
            \<and> fst (snd (worker_messageIterator source_iterator)) = None)"
proof -
  have "never_fires (IteratorCursor_new source_iterator None)"
    by (simp add: never_fires_def IteratorCursor_new_def)
  moreover have "pending (iter (IteratorCursor_new source_iterator None)) = pending source_iterator"
    by (simp add: IteratorCursor_new_def)
  ultimately have "list_all valid_time_item (pending source_iterator)
        \<longrightarrow> fst (worker_messageIterator source_iterator) = pending source_iterator
            \<and> fst (snd (worker_messageIterator source_iterator)) = None"
    using worker_messageIterator_loop_yields_all [of "IteratorCursor_new source_iterator None"]
    by (simp add: worker_messageIterator_def)
  then show ?thesis
    using nextBatch_outcomes [of durationMs c e x xs]
    unfolding valid_time_item_def by blast
qed

text \<open>
  The theorem on a cursor over stamps at 0, 5, 30 and 1000 ms with a 17 ms batch (the
  batch ends with the first stamp past the cutoff), on an exhausted cursor, on an
  aborted one, and on the consuming loop over the same four stamps.
\<close>

theorem nextBatch_never_empty_witness:
  "fst (nextBatch 17 batch_cursor)
       = Inr (Some [StampItem \<lparr>sec = 0, nsec = 0\<rparr>, StampItem \<lparr>sec = 0, nsec = 5000000\<rparr>,
                    StampItem \<lparr>sec = 0, nsec = 30000000\<rparr>])
   \<and> fst (nextBatch 17 batch_cursor) \<noteq> Inr (Some [])
   \<and> fst (nextBatch 17 empty_cursor) = Inr None
   \<and> fst (nextBatch 17 aborted_cursor) = Inr None
   \<and> list_all valid_time_item (pending (iter batch_cursor))
   \<and> fst (worker_messageIterator (iter batch_cursor)) = pending (iter batch_cursor)"
  using nextBatch_never_empty [of 17 batch_cursor InvalidTime "StampItem \<lparr>sec = 0, nsec = 0\<rparr>"
      "[StampItem \<lparr>sec = 0, nsec = 5000000\<rparr>, StampItem \<lparr>sec = 0, nsec = 30000000\<rparr>,
        StampItem \<lparr>sec = 1, nsec = 0\<rparr>]" "iter batch_cursor"]
    nextBatch_never_empty [of 17 empty_cursor]
    nextBatch_never_empty [of 17 aborted_cursor]
  by (simp add: batch_cursor_def empty_cursor_def aborted_cursor_def IteratorCursor_new_def
      nextBatch_def nextBatch_loop.simps cursor_next_def await_iter_next_def iter_next_def
      is_aborted_def addTime_def fixTime_def batch_breaks_def compare_def valid_time_item_def)

section \<open>Properties of the MCAP unindexed source\<close>

text \<open>What \<open>initialize\<close> stores for the file with messages on /a logged at 5, 3, 4 and 2 ns.\<close>

lemma example_event_sources:
  "initialized stub_parsers unsorted_source =
     Some (unsorted_source
        \<lparr>msgEventsByChannel := Some [(1, map (\<lambda>t.
             \<lparr>topic = ''/a'', schemaName = ''pkg/msg/A'', receiveTime = \<lparr>sec = 0, nsec = t\<rparr>,
              publishTime = Some \<lparr>sec = 0, nsec = t\<rparr>, message = JSTypedArray 3,
              sizeInBytes = Finite 103\<rparr>) [5, 3, 4, 2])],
          mcap_start := Some \<lparr>sec = 0, nsec = 2\<rparr>, mcap_end := Some \<lparr>sec = 0, nsec = 5\<rparr>\<rparr>)"
  by (simp add: initialized_def mcap_initialize_def unsorted_source_def example_schema_def
      example_channel_def example_message_def stub_parsers_def parseChannel_def
      KNOWN_EMPTY_SCHEMA_NAMES_def estimateMessageSize_def fromNanoSec_def
      isLessThan_def isGreaterThan_def compare_def math_max_def toNumber_def
      estimate_constants Let_def)

lemma compare_le_iff:
  "compare a b \<le> 0 \<longleftrightarrow> sec a < sec b \<or> (sec a = sec b \<and> nsec a \<le> nsec b)"
  by (auto simp: compare_def Let_def)

lemma compare_le_total: "compare a b \<le> 0 \<or> compare b a \<le> 0"
  by (auto simp: compare_le_iff)

lemma compare_le_trans: "compare a b \<le> 0 \<Longrightarrow> compare b c \<le> 0 \<Longrightarrow> compare a c \<le> 0"
  by (auto simp: compare_le_iff)

lemma set_insert_by: "set (insert_by cmp x ys) = insert x (set ys)"
  by (induction ys) auto

lemma sorted_insert_by:
  assumes "\<And>a b. cmp a b \<le> 0 \<or> cmp b a \<le> 0"
    and "\<And>a b c. cmp a b \<le> 0 \<Longrightarrow> cmp b c \<le> 0 \<Longrightarrow> cmp a c \<le> 0"
  shows "sorted_wrt (\<lambda>a b. cmp a b \<le> 0) ys \<Longrightarrow> sorted_wrt (\<lambda>a b. cmp a b \<le> 0) (insert_by cmp x ys)"
proof (induction ys)
  case Nil
  then show ?case by simp
next
  case (Cons y ys)
  show ?case
  proof (cases "cmp x y \<le> 0")
    case True
    then have "\<forall>z\<in>set ys. cmp x z \<le> 0" using Cons.prems assms(2) by auto
    with True Cons.prems show ?thesis by simp
  next
    case False
    then have "cmp y x \<le> 0" using assms(1) [of x y] by simp
    with False Cons show ?thesis by (simp add: set_insert_by)
  qed
qed

lemma sorted_array_sort:
  assumes "\<And>a b. cmp a b \<le> 0 \<or> cmp b a \<le> 0"
    and "\<And>a b c. cmp a b \<le> 0 \<Longrightarrow> cmp b c \<le> 0 \<Longrightarrow> cmp a c \<le> 0"
  shows "sorted_wrt (\<lambda>a b. cmp a b \<le> 0) (array_sort cmp xs)"
  unfolding array_sort_def
  by (induction xs) (simp_all add: sorted_insert_by [OF assms])

lemma receive_times_items:
  "receive_times (map (\<lambda>r. MessageEventItem (Some (fst r)) (snd r)) rs) = map (\<lambda>r. receiveTime (snd r)) rs"
  by (induction rs) (simp_all add: receive_times_def List.map_filter_simps)

lemma sorted_by_receiveTime:
  "sorted_wrt (\<lambda>s t. compare s t \<le> 0)
     (map (\<lambda>r. receiveTime (snd r))
        (array_sort (\<lambda>a b. compare (receiveTime (snd a)) (receiveTime (snd b))) (rs :: (nat \<times> MessageEvent) list)))"
proof -
  have "sorted_wrt (\<lambda>a b. compare (receiveTime (snd a)) (receiveTime (snd b)) \<le> 0)
          (array_sort (\<lambda>a b. compare (receiveTime (snd a)) (receiveTime (snd b))) rs)"
  proof (rule sorted_array_sort)
    fix a b c :: "nat \<times> MessageEvent"
    show "compare (receiveTime (snd a)) (receiveTime (snd b)) \<le> 0
          \<or> compare (receiveTime (snd b)) (receiveTime (snd a)) \<le> 0"
      by (rule compare_le_total)
    show "compare (receiveTime (snd a)) (receiveTime (snd b)) \<le> 0 \<Longrightarrow>
          compare (receiveTime (snd b)) (receiveTime (snd c)) \<le> 0 \<Longrightarrow>
          compare (receiveTime (snd a)) (receiveTime (snd c)) \<le> 0"
      by (rule compare_le_trans)
  qed
  then show ?thesis by (simp add: sorted_wrt_map)
qed

lemma mcap_messageIterator_shape:
  "msgEventsByChannel src = Some byChannel \<Longrightarrow>
   \<exists>rs. mcap_messageIterator src args
          = Inr (map (\<lambda>r. MessageEventItem (Some (fst r)) (snd r))
                   (array_sort (\<lambda>a b. compare (receiveTime (snd a)) (receiveTime (snd b))) rs))
        \<and> (arg_topics args = [] \<longrightarrow> rs = [])"
proof (cases "arg_topics args = [] \<or> (arg_start args = None \<and> mcap_start src = None)
              \<or> (arg_end args = None \<and> mcap_end src = None)")
  case True
  assume "msgEventsByChannel src = Some byChannel"
  with True have "mcap_messageIterator src args
          = Inr (map (\<lambda>r. MessageEventItem (Some (fst r)) (snd r))
                   (array_sort (\<lambda>a b. compare (receiveTime (snd a)) (receiveTime (snd b))) []))"
    by (auto simp: mcap_messageIterator_def Let_def array_sort_def split: option.splits)
  then show ?thesis by blast
next
  case False
  assume "msgEventsByChannel src = Some byChannel"
  with False show ?thesis
    by (auto simp: mcap_messageIterator_def Let_def split: option.splits)
qed

text \<open>
  Claim C1. For every initialized source and every arguments (the \<open>reverse\<close> flag is
  not read), \<open>messageIterator\<close> yields message events only, and their receive times
  are in non-decreasing order: for any two of them, hence for any two yielded one after
  the other, the earlier one's receive time compares less than or equal to the later
  one's. An empty topic selection yields no items. The file with messages on /a
  logged at 5, 3, 4 and 2 ns yields, for the selection /a, the receive times (0,2),
  (0,3), (0,4), (0,5), and nothing for the empty selection.
\<close>

theorem mcap_messageIterator_sorted:
  "(msgEventsByChannel src \<noteq> None \<longrightarrow>
      (\<exists>items. mcap_messageIterator src args = Inr items
         \<and> sorted_wrt (\<lambda>s t. compare s t \<le> 0) (receive_times items)
         \<and> successively (\<lambda>s t. compare s t \<le> 0) (receive_times items)
         \<and> length (receive_times items) = length items
         \<and> (arg_topics args = [] \<longrightarrow> items = [])))
   \<and> (\<exists>src'. initialized stub_parsers unsorted_source = Some src'
         \<and> map_sum id receive_times (mcap_messageIterator src' (iterate_topics [''/a'']))
             = Inr [\<lparr>sec = 0, nsec = 2\<rparr>, \<lparr>sec = 0, nsec = 3\<rparr>,
                    \<lparr>sec = 0, nsec = 4\<rparr>, \<lparr>sec = 0, nsec = 5\<rparr>]
         \<and> mcap_messageIterator src' (iterate_topics []) = Inr [])"
proof (intro conjI impI)
  assume "msgEventsByChannel src \<noteq> None"
  then obtain byChannel where b: "msgEventsByChannel src = Some byChannel" by auto
  show "\<exists>items. mcap_messageIterator src args = Inr items
         \<and> sorted_wrt (\<lambda>s t. compare s t \<le> 0) (receive_times items)
         \<and> successively (\<lambda>s t. compare s t \<le> 0) (receive_times items)
         \<and> length (receive_times items) = length items
         \<and> (arg_topics args = [] \<longrightarrow> items = [])"
  proof -
    obtain rs where rs: "mcap_messageIterator src args
          = Inr (map (\<lambda>r. MessageEventItem (Some (fst r)) (snd r))
                   (array_sort (\<lambda>a b. compare (receiveTime (snd a)) (receiveTime (snd b))) rs))"
        "arg_topics args = [] \<longrightarrow> rs = []"
      using mcap_messageIterator_shape [OF b] by blast
    let ?sorted = "array_sort (\<lambda>a b. compare (receiveTime (snd a)) (receiveTime (snd b))) rs"
    let ?items = "map (\<lambda>r. MessageEventItem (Some (fst r)) (snd r)) ?sorted"
    have s: "sorted_wrt (\<lambda>s t. compare s t \<le> 0) (receive_times ?items)"
      unfolding receive_times_items by (rule sorted_by_receiveTime)
    have l: "length (receive_times ?items) = length ?items"
      unfolding receive_times_items by simp
    have e: "arg_topics args = [] \<longrightarrow> ?items = []"
      using rs(2) by (simp add: array_sort_def)
    show ?thesis
      using rs(1) s l e successively_if_sorted_wrt [OF s] by blast
  qed
next
  show "\<exists>src'. initialized stub_parsers unsorted_source = Some src'
         \<and> map_sum id receive_times (mcap_messageIterator src' (iterate_topics [''/a'']))
             = Inr [\<lparr>sec = 0, nsec = 2\<rparr>, \<lparr>sec = 0, nsec = 3\<rparr>,
                    \<lparr>sec = 0, nsec = 4\<rparr>, \<lparr>sec = 0, nsec = 5\<rparr>]
         \<and> mcap_messageIterator src' (iterate_topics []) = Inr []"
    unfolding example_event_sources
    by (simp add: mcap_messageIterator_def iterate_topics_def select_topics_def Let_def
        isTimeInRangeInclusive_def compare_def map_has_def array_sort_def
        receive_times_def List.map_filter_simps unsorted_source_def)
qed


text \<open>The general part of the theorem on the initialized source of that file: it yields four items, in order.\<close>

theorem mcap_messageIterator_sorted_witness:
  "msgEventsByChannel (the (initialized stub_parsers unsorted_source)) \<noteq> None
   \<and> (\<exists>items. mcap_messageIterator (the (initialized stub_parsers unsorted_source))
                 (iterate_topics [''/a'']) = Inr items
         \<and> sorted_wrt (\<lambda>s t. compare s t \<le> 0) (receive_times items)
         \<and> length items = 4)"
proof -
  let ?src = "the (initialized stub_parsers unsorted_source)"
  have h: "msgEventsByChannel ?src \<noteq> None"
    by (simp add: example_event_sources)
  have n: "map_sum id length (mcap_messageIterator ?src (iterate_topics [''/a''])) = Inr 4"
    unfolding example_event_sources
    by (simp add: mcap_messageIterator_def iterate_topics_def select_topics_def Let_def
        isTimeInRangeInclusive_def compare_def map_has_def array_sort_def unsorted_source_def)
  from mcap_messageIterator_sorted [of ?src "iterate_topics [''/a'']"] h
  obtain items where
    "mcap_messageIterator ?src (iterate_topics [''/a'']) = Inr items"
    "sorted_wrt (\<lambda>s t. compare s t \<le> 0) (receive_times items)"
    by blast
  with n h show ?thesis by auto
qed

text \<open>What \<open>initialize\<close> stores for the file with /a at 1, 3, 7 ns and /b at 2, 5 ns.\<close>

lemma backfill_source_initialized:
  "initialized stub_parsers backfill_source =
     Some (backfill_source
        \<lparr>msgEventsByChannel := Some
            [(1, map (\<lambda>t.
               \<lparr>topic = ''/a'', schemaName = ''pkg/msg/A'', receiveTime = \<lparr>sec = 0, nsec = t\<rparr>,
                publishTime = Some \<lparr>sec = 0, nsec = t\<rparr>, message = JSTypedArray 3,
                sizeInBytes = Finite 103\<rparr>) [1, 3, 7]),
             (2, map (\<lambda>t.
               \<lparr>topic = ''/b'', schemaName = ''pkg/msg/A'', receiveTime = \<lparr>sec = 0, nsec = t\<rparr>,
                publishTime = Some \<lparr>sec = 0, nsec = t\<rparr>, message = JSTypedArray 3,
                sizeInBytes = Finite 103\<rparr>) [2, 5])],
          mcap_start := Some \<lparr>sec = 0, nsec = 1\<rparr>, mcap_end := Some \<lparr>sec = 0, nsec = 7\<rparr>\<rparr>)"
  by (simp add: initialized_def mcap_initialize_def backfill_source_def example_schema_def
      example_channel_def example_message_def stub_parsers_def parseChannel_def
      KNOWN_EMPTY_SCHEMA_NAMES_def estimateMessageSize_def fromNanoSec_def
      isLessThan_def isGreaterThan_def compare_def math_max_def toNumber_def
      estimate_constants Let_def channel_isEqual_def)

text \<open>
  Claim C2 at two files. For the file with /a at 1, 3, 7 ns and /b at 2, 5 ns,
  \<open>getBackfillMessages\<close> of /a and /b at 4 ns returns /a at 3 and then /b at 2: the
  order in which the topics were first stored, not the order of receive times. For the
  file with /a logged at 5, 3, 4, 2 ns, the backfill of /a at 10 ns is the message at
  2 ns, the last one stored, not the latest one (5 ns).
\<close>

theorem mcap_getBackfillMessages_file_order:
  "(\<exists>src'. initialized stub_parsers backfill_source = Some src'
      \<and> map_sum id (map (\<lambda>ev. (topic ev, receiveTime ev)))
           (mcap_getBackfillMessages src'
              \<lparr>backfill_topics = select_topics [''/a'', ''/b''],
               backfill_time = \<lparr>sec = 0, nsec = 4\<rparr>\<rparr>)
          = Inr [(''/a'', \<lparr>sec = 0, nsec = 3\<rparr>), (''/b'', \<lparr>sec = 0, nsec = 2\<rparr>)])
   \<and> (\<exists>src'. initialized stub_parsers unsorted_source = Some src'
      \<and> map_sum id (map (\<lambda>ev. (topic ev, receiveTime ev)))
           (mcap_getBackfillMessages src'
              \<lparr>backfill_topics = select_topics [''/a''],
               backfill_time = \<lparr>sec = 0, nsec = 10\<rparr>\<rparr>)
          = Inr [(''/a'', \<lparr>sec = 0, nsec = 2\<rparr>)])"
  unfolding example_event_sources backfill_source_initialized
  by (simp add: mcap_getBackfillMessages_def select_topics_def compare_def map_has_def
      map_values_def unsorted_source_def backfill_source_def)

section \<open>Properties of the bag source\<close>

text \<open>
  No method writes \<open>messageSizeEstimateByTopic\<close>: it is empty when the object is
  constructed and still empty after \<open>initialize\<close>.
\<close>

lemma bag_connections_loop_estimates:
  "bag_connections_loop L cs acc0 = Inr r \<Longrightarrow>
   bag_messageSizeEstimateByTopic (snd r) = bag_messageSizeEstimateByTopic (snd acc0)"
proof (induction cs arbitrary: acc0)
  case Nil
  then show ?case by simp
next
  case (Cons c cs)
  then show ?case
    by (auto simp: Let_def split: option.splits if_splits sum.splits)
qed

lemma bag_initialize_estimates:
  "bag_initialize L (BagIterableSource_new inp) = Inr r \<Longrightarrow>
   bag_messageSizeEstimateByTopic (snd (snd r)) = []"
  by (auto simp: bag_initialize_def BagIterableSource_new_def Let_def
      dest!: bag_connections_loop_estimates split: sum.splits)

text \<open>So the lookup is \<open>undefined\<close> for every topic, and \<open>Math.max\<close> of the byte length and \<open>undefined\<close> is NaN.\<close>

lemma bag_messageIterator_loop_NaN:
  "bag_messageSizeEstimateByTopic src = [] \<Longrightarrow>
   list_all (\<lambda>n. n = NaN) (sizes_in_bytes (fst (bag_messageIterator_loop src end_o evs)))"
proof (induction evs)
  case Nil
  then show ?case by (simp add: sizes_in_bytes_def List.map_filter_simps)
next
  case (Cons ev evs)
  then show ?case
    by (auto simp: sizes_in_bytes_def List.map_filter_simps Let_def math_max_def toNumber_def
        split: option.splits sum.splits)
qed

lemma bag_messageIterator_NaN:
  "bag_messageSizeEstimateByTopic src = [] \<Longrightarrow>
   list_all (\<lambda>n. n = NaN) (sizes_in_bytes (fst (bag_messageIterator src args)))"
  using bag_messageIterator_loop_NaN [of src]
  by (auto simp: bag_messageIterator_def sizes_in_bytes_def List.map_filter_simps
      split: option.splits)

text \<open>
  Claim C7 at a concrete bag: after \<open>initialize\<close>, the iterator over /chatter yields
  two message events, and the \<open>sizeInBytes\<close> of each is NaN, not the maximum of the
  wire length (4) and an estimate.
\<close>

theorem bag_messageIterator_sizeInBytes_NaN:
  "\<exists>r. bag_initialize stub_rosbag (BagIterableSource_new (FileInput (Inr example_bag))) = Inr r
     \<and> sizes_in_bytes (fst (bag_messageIterator (snd (snd r)) (iterate_topics [''/chatter''])))
         = [NaN, NaN]
     \<and> length (fst (bag_messageIterator (snd (snd r)) (iterate_topics [''/chatter'']))) = 2"
  by (simp add: bag_initialize_def BagIterableSource_new_def stub_rosbag_def example_bag_def
      Let_def map_has_def bag_messageIterator_def iterate_topics_def select_topics_def
      sizes_in_bytes_def List.map_filter_simps math_max_def toNumber_def
      getBagChunksOverlapCount_def array_sort_def)

section \<open>Properties of the cached filelike\<close>

text \<open>
  Claim C5. The three cases of \<open>read\<close> are tested in the order the specification lists
  them. \<open>read(offset, 0)\<close> resolves to an empty byte array and leaves the object as it
  was (no request queued, no connection opened), whatever the offset. Otherwise,
  \<open>read(offset, length)\<close> with a length greater than the cache size rejects, and on an
  opened filelike over a file of \<open>n\<close> bytes \<open>read(offset, length)\<close> with
  \<open>offset + length > n\<close> rejects. A rejected read leaves the object as it was too.
\<close>

theorem cf_read_checks:
  "cf_read offset 0 rid f = (Resolved [], f)
   \<and> (len \<noteq> 0 \<and> exceeds len (cacheSizeInBytes f)
        \<longrightarrow> (\<exists>e. cf_read offset len rid f = (Rejected e, f)))
   \<and> (cf_fileSize f = Some n \<and> len \<noteq> 0 \<and> offset + len > n
        \<longrightarrow> (\<exists>e. cf_read offset len rid f = (Rejected e, f)))"
  by (auto simp: cf_read_def cf_open_def cf_size_def)

text \<open>The theorem on the opened filelike over 10 bytes with a cache of 100 bytes.\<close>

theorem cf_read_checks_witness:
  "(\<exists>f. cf_open example_filelike = Inr f \<and> cf_fileSize f = Some 10
        \<and> cacheSizeInBytes f = Bytes 100
        \<and> cf_read 3 0 0 f = (Resolved [], f) \<and> fetches (snd (cf_read 3 0 0 f)) = []
        \<and> cf_read 0 200 0 f = (Rejected ReadExceedsCacheSize, f)
        \<and> cf_read 8 5 0 f = (Rejected ReadExceedsFileSize, f))"
proof -
  let ?f = "example_filelike\<lparr>cf_fileSize := Some 10, virtualBuffer := vb_new 10\<rparr>"
  have o: "cf_open example_filelike = Inr ?f"
    by (simp add: cf_open_def example_filelike_def CachedFilelike_new_def)
  have p: "cf_fileSize ?f = Some 10" "cacheSizeInBytes ?f = Bytes 100" "fetches ?f = []"
    by (simp_all add: example_filelike_def CachedFilelike_new_def)
  have "cf_read 3 0 0 ?f = (Resolved [], ?f)"
    using cf_read_checks [of 3 0 ?f 200 10] by simp
  moreover have "cf_read 0 200 0 ?f = (Rejected ReadExceedsCacheSize, ?f)"
    using cf_read_checks [of 0 0 ?f 200 10] p
    by (simp add: cf_read_def)
  moreover have "cf_read 8 5 0 ?f = (Rejected ReadExceedsFileSize, ?f)"
    using cf_read_checks [of 8 0 ?f 5 10] p
    by (simp add: cf_read_def cf_open_def cf_size_def)
  ultimately show ?thesis using o p by simp
qed

text \<open>
  The zero-length test comes first in \<open>read\<close>: on the file of 10 bytes, \<open>read(11, 0)\<close>
  resolves to the empty array although the offset lies beyond the file.
\<close>

lemma cf_read_zero_length_beyond_file:
  "\<exists>f. cf_open example_filelike = Inr f \<and> cf_fileSize f = Some 10
       \<and> (11::int) + 0 > 10 \<and> cf_read 11 0 0 f = (Resolved [], f)"
proof -
  let ?f = "example_filelike\<lparr>cf_fileSize := Some 10, virtualBuffer := vb_new 10\<rparr>"
  have "cf_open example_filelike = Inr ?f"
    by (simp add: cf_open_def example_filelike_def CachedFilelike_new_def)
  moreover have "cf_fileSize ?f = Some 10" by simp
  moreover have "cf_read 11 0 0 ?f = (Resolved [], ?f)" by (simp add: cf_read_def)
  ultimately show ?thesis by simp
qed

text \<open>A read inside the file and the cache: the request is queued and one connection is opened for it.\<close>

lemma cf_read_opens_connection:
  "\<exists>f. cf_open example_filelike = Inr f
       \<and> fst (cf_read 2 4 0 f) = Pending
       \<and> fetches (snd (cf_read 2 4 0 f)) = [(2, 8)]"
proof -
  let ?f = "example_filelike\<lparr>cf_fileSize := Some 10, virtualBuffer := vb_new 10\<rparr>"
  have "cf_open example_filelike = Inr ?f"
    by (simp add: cf_open_def example_filelike_def CachedFilelike_new_def)
  moreover have "fst (cf_read 2 4 0 ?f) = Pending \<and> fetches (snd (cf_read 2 4 0 ?f)) = [(2, 8)]"
    by (simp add: cf_read_def cf_open_def cf_size_def example_filelike_def CachedFilelike_new_def
        updateState_def resolve_cache_hits_def hasData_def vb_new_def getRangesWithData_def
        getNewConnection_def getNewConnectionWithExistingReadRequest_def missingRanges_def
        complement_def intersect1_def first_range_def setConnection_def Let_def)
  ultimately show ?thesis by simp
qed

section \<open>Properties of the connection decision\<close>

lemma chain_weaken: "chain p rs \<Longrightarrow> q \<le> p \<Longrightarrow> chain q rs"
  by (cases rs) auto

lemma chain_lower: "chain p rs \<Longrightarrow> r \<in> set rs \<Longrightarrow> p \<le> range_start r"
proof (induction rs arbitrary: p)
  case Nil
  then show ?case by simp
next
  case (Cons a rs)
  then show ?case by (auto dest: Cons.IH [of "range_end a"])
qed

lemma canonical_chain: "canonical rs \<Longrightarrow> \<exists>p. chain p rs"
  by (cases rs) (auto simp: canonical_def)

lemma chain_intersect1:
  "chain p rs \<Longrightarrow> range_start b < range_end b \<Longrightarrow>
   chain (max p (range_start b)) (intersect1 b rs)"
proof (induction rs arbitrary: p)
  case Nil
  then show ?case by (simp add: intersect1_def)
next
  case (Cons d ds)
  have ih: "chain (max (range_end d) (range_start b)) (intersect1 b ds)"
    using Cons.IH [of "range_end d"] Cons.prems by simp
  show ?case
  proof (cases "isOverlappingSimple b d")
    case True
    have "chain (min (range_end b) (range_end d)) (intersect1 b ds)"
      using ih by (rule chain_weaken) simp
    with True Cons.prems show ?thesis
      by (auto simp: intersect1_def isOverlappingSimple_def)
  next
    case False
    have "chain (max p (range_start b)) (intersect1 b ds)"
      using ih Cons.prems by (auto intro: chain_weaken)
    with False show ?thesis by (simp add: intersect1_def)
  qed
qed

lemma intersect1_inside:
  "c \<in> set (intersect1 b rs) \<Longrightarrow> range_start b \<le> range_start c \<and> range_end c \<le> range_end b"
  by (auto simp: intersect1_def)

lemma covers_intersect1:
  "range_start b \<le> x \<Longrightarrow> x < range_end b \<Longrightarrow>
   (\<exists>c\<in>set (intersect1 b rs). covers c x) \<longleftrightarrow> (\<exists>d\<in>set rs. covers d x)"
  by (auto simp: intersect1_def covers_def isOverlappingSimple_def)

lemma first_gap:
  "chain p cs \<Longrightarrow> \<forall>c\<in>set cs. range_end c \<le> e \<Longrightarrow> complement_from p cs e = g # gs \<Longrightarrow>
   p \<le> range_start g \<and> range_start g < range_end g \<and> range_end g \<le> e
   \<and> (\<forall>c\<in>set cs. \<not> covers c (range_start g))"
proof (induction cs arbitrary: p)
  case Nil
  then show ?case by (auto split: if_splits)
next
  case (Cons c cs)
  show ?case
  proof (cases "p < range_start c")
    case True
    then have g: "g = \<lparr>range_start = p, range_end = range_start c\<rparr>"
      using Cons.prems(3) by simp
    have "\<forall>c'\<in>set cs. range_end c \<le> range_start c'"
      using Cons.prems(1) chain_lower [of "range_end c" cs] by auto
    with True g Cons.prems(1,2) show ?thesis
      by (auto simp: covers_def)
  next
    case False
    then have r: "complement_from (range_end c) cs e = g # gs"
      using Cons.prems(3) by simp
    have "range_end c \<le> range_start g \<and> range_start g < range_end g \<and> range_end g \<le> e
          \<and> (\<forall>c\<in>set cs. \<not> covers c (range_start g))"
      using Cons.IH [of "range_end c"] Cons.prems(1,2) r by simp
    with Cons.prems(1) show ?thesis by (auto simp: covers_def)
  qed
qed

text \<open>
  The first missing range of a non-empty request is a non-empty part of the request
  that starts at a byte no downloaded range holds.
\<close>

lemma first_missing_range:
  assumes "canonical ds" "range_start b < range_end b" "missingRanges b ds = g # gs"
  shows "range_start b \<le> range_start g \<and> range_start g < range_end g
         \<and> range_end g \<le> range_end b \<and> (\<forall>d\<in>set ds. \<not> covers d (range_start g))"
proof -
  obtain p where p: "chain p ds" using assms(1) canonical_chain by blast
  have c: "chain (range_start b) (intersect1 b ds)"
    using chain_intersect1 [OF p assms(2)] by (rule chain_weaken) simp
  have e: "\<forall>c\<in>set (intersect1 b ds). range_end c \<le> range_end b"
    using intersect1_inside by blast
  have m: "complement_from (range_start b) (intersect1 b ds) (range_end b) = g # gs"
    using assms(3) by (simp add: missingRanges_def complement_def)
  have f: "range_start b \<le> range_start g \<and> range_start g < range_end g
      \<and> range_end g \<le> range_end b
      \<and> (\<forall>c\<in>set (intersect1 b ds). \<not> covers c (range_start g))"
    using first_gap [OF c e m] .
  then have "range_start b \<le> range_start g" "range_start g < range_end b" by auto
  then have "(\<exists>c\<in>set (intersect1 b ds). covers c (range_start g))
             \<longleftrightarrow> (\<exists>d\<in>set ds. covers d (range_start g))"
    by (rule covers_intersect1)
  with f show ?thesis by blast
qed

text \<open>From a byte below the end of the file that no downloaded range holds, a missing range starts.\<close>

lemma missing_from_uncovered:
  assumes "canonical ds" "x < fs" "\<forall>d\<in>set ds. \<not> covers d x"
  shows "\<exists>g gs. missingRanges \<lparr>range_start = x, range_end = fs\<rparr> ds = g # gs
           \<and> range_start g = x \<and> range_start g < range_end g"
proof -
  let ?b = "\<lparr>range_start = x, range_end = fs\<rparr>"
  obtain p where p: "chain p ds" using assms(1) canonical_chain by blast
  have c: "chain x (intersect1 ?b ds)"
    using chain_intersect1 [OF p, of ?b] assms(2) by (auto intro: chain_weaken)
  show ?thesis
  proof (cases "intersect1 ?b ds")
    case Nil
    with assms(2) show ?thesis by (simp add: missingRanges_def complement_def)
  next
    case (Cons c1 cs)
    have "c1 \<in> set (intersect1 ?b ds)" using Cons by simp
    have lo: "x \<le> range_start c1" "range_start c1 < range_end c1" using c Cons by simp_all
    have "range_start c1 \<noteq> x"
    proof
      assume "range_start c1 = x"
      then have "covers c1 x" using lo by (simp add: covers_def)
      then have "\<exists>c\<in>set (intersect1 ?b ds). covers c x" using Cons by auto
      then have "\<exists>d\<in>set ds. covers d x"
        using covers_intersect1 [of ?b x ds] assms(2) by simp
      with assms(3) show False by blast
    qed
    with lo have "x < range_start c1" by simp
    with Cons show ?thesis by (simp add: missingRanges_def complement_def)
  qed
qed


text \<open>
  Claim C6, as the code has it. Take a call of \<open>getNewConnection\<close> with downloaded
  ranges in canonical form and a pending read-request range \<open>R\<close> that is non-empty,
  ends within the file, is no longer than \<open>maxRequestSize\<close> and is not fully downloaded:
  its missing ranges are \<open>n0 # ns\<close>. A new connection range is returned exactly when
  there is no current connection, or the current connection's remaining range does not
  overlap the missing ranges, or it starts more than the threshold before \<open>n0\<close>;
  otherwise the call returns \<open>undefined\<close>. The range returned is: when
  \<open>maxRequestSize \<ge> fileSize\<close>, the first missing range of \<open>[n0.start, fileSize)\<close>,
  which exists, is not empty and starts at \<open>n0.start\<close>; otherwise, when \<open>n0\<close> ends where
  \<open>R\<close> ends, \<open>n0\<close> with its end moved to \<open>min(R.start + maxRequestSize, fileSize)\<close>;
  otherwise \<open>n0\<close>.
\<close>

theorem getNewConnection_with_read_request:
  assumes "canonical ds" "range_start R < range_end R" "range_end R \<le> fs"
    and "\<not> exceeds (range_end R - range_start R) M"
    and "missingRanges R ds = n0 # ns"
  shows "\<exists>target.
           getNewConnection
             \<lparr>currentRemainingRange = cur, readRequestRange = Some R, downloadedRanges = ds,
              lastResolvedCallbackEnd = lre, maxRequestSize = M, fileSize = fs,
              continueDownloadingThreshold = thr\<rparr>
             = Inr (if opens_new_connection cur (n0 # ns) n0 thr then Some target else None)
           \<and> (at_least M fs \<longrightarrow>
                (\<exists>gs. missingRanges \<lparr>range_start = range_start n0, range_end = fs\<rparr> ds = target # gs)
                \<and> range_start target = range_start n0 \<and> range_start target < range_end target)
           \<and> (\<not> at_least M fs \<and> range_end n0 = range_end R \<longrightarrow>
                target = n0\<lparr>range_end := min_plus (range_start R) M fs\<rparr>
                \<and> (\<forall>m. M = Bytes m \<longrightarrow> range_end target = min (range_start R + m) fs))
           \<and> (\<not> at_least M fs \<and> range_end n0 \<noteq> range_end R \<longrightarrow> target = n0)"
proof -
  let ?call = "getNewConnection
             \<lparr>currentRemainingRange = cur, readRequestRange = Some R, downloadedRanges = ds,
              lastResolvedCallbackEnd = lre, maxRequestSize = M, fileSize = fs,
              continueDownloadingThreshold = thr\<rparr>"
  have n0: "range_start n0 < range_end n0" "range_end n0 \<le> range_end R"
      "\<forall>d\<in>set ds. \<not> covers d (range_start n0)"
    using first_missing_range [OF assms(1,2,5)] by auto
  have snc: "(case cur of None \<Rightarrow> True
              | Some c \<Rightarrow> if isOverlapping (n0 # ns) [c]
                          then range_start c + thr < range_start n0 else True)
             = opens_new_connection cur (n0 # ns) n0 thr"
    by (auto simp: opens_new_connection_def split: option.splits)
  show ?thesis
  proof (cases "at_least M fs")
    case True
    have "range_start n0 < fs" using n0 assms(3) by simp
    then obtain g gs where g:
      "missingRanges \<lparr>range_start = range_start n0, range_end = fs\<rparr> ds = g # gs"
      "range_start g = range_start n0" "range_start g < range_end g"
      using missing_from_uncovered [OF assms(1) _ n0(3)] by blast
    have "?call = Inr (if opens_new_connection cur (n0 # ns) n0 thr then Some g else None)"
      using assms(4,5) True g(1) snc
      by (simp add: getNewConnection_def getNewConnectionWithExistingReadRequest_def
          first_range_def Let_def)
    with True g show ?thesis by blast
  next
    case False
    show ?thesis
    proof (cases "range_end n0 = range_end R")
      case True
      let ?t = "n0\<lparr>range_end := min_plus (range_start R) M fs\<rparr>"
      have "?call = Inr (if opens_new_connection cur (n0 # ns) n0 thr then Some ?t else None)"
        using assms(4,5) False True snc
        by (simp add: getNewConnection_def getNewConnectionWithExistingReadRequest_def Let_def)
      moreover have "\<forall>m. M = Bytes m \<longrightarrow> range_end ?t = min (range_start R + m) fs"
        by simp
      ultimately show ?thesis using False True by blast
    next
      case neq: False
      have "?call = Inr (if opens_new_connection cur (n0 # ns) n0 thr then Some n0 else None)"
        using assms(4,5) False neq snc
        by (simp add: getNewConnection_def getNewConnectionWithExistingReadRequest_def Let_def)
      with False neq show ?thesis by blast
    qed
  qed
qed

text \<open>
  Claim C6 as worded speaks of every call with a read request that is not fully
  downloaded. A request longer than \<open>maxRequestSize\<close> makes the call throw, also when
  there is no current connection: bytes 0 to 10 with a \<open>maxRequestSize\<close> of 5, nothing
  downloaded.
\<close>

theorem getNewConnection_oversized_request_counterexample:
  "missingRanges \<lparr>range_start = 0, range_end = 10\<rparr> [] = [\<lparr>range_start = 0, range_end = 10\<rparr>]
   \<and> getNewConnection
        \<lparr>currentRemainingRange = None,
         readRequestRange = Some \<lparr>range_start = 0, range_end = 10\<rparr>,
         downloadedRanges = [], lastResolvedCallbackEnd = None, maxRequestSize = Bytes 5,
         fileSize = 100, continueDownloadingThreshold = 5242880\<rparr>
       = Inl RangeExceedsMaxRequestSize"
  by (simp add: getNewConnection_def getNewConnectionWithExistingReadRequest_def
      missingRanges_def complement_def intersect1_def)


text \<open>
  The theorem on a file of 100 bytes with bytes 0 to 10 and 40 to 50 downloaded and a
  request for bytes 5 to 20, whose missing range is 10 to 20: with a cache of 30 bytes
  and no connection, the connection 10 to 35; with an unlimited cache, 10 to 40; with a
  cache of 30 bytes and a connection that has 8 to 60 left (threshold 5), none.
\<close>

theorem getNewConnection_with_read_request_witness:
  "canonical [\<lparr>range_start = 0, range_end = 10\<rparr>, \<lparr>range_start = 40, range_end = 50\<rparr>]
   \<and> missingRanges \<lparr>range_start = 5, range_end = 20\<rparr>
         [\<lparr>range_start = 0, range_end = 10\<rparr>, \<lparr>range_start = 40, range_end = 50\<rparr>]
       = [\<lparr>range_start = 10, range_end = 20\<rparr>]
   \<and> getNewConnection
        \<lparr>currentRemainingRange = None,
         readRequestRange = Some \<lparr>range_start = 5, range_end = 20\<rparr>,
         downloadedRanges = [\<lparr>range_start = 0, range_end = 10\<rparr>, \<lparr>range_start = 40, range_end = 50\<rparr>],
         lastResolvedCallbackEnd = None, maxRequestSize = Bytes 30,
         fileSize = 100, continueDownloadingThreshold = 5\<rparr>
       = Inr (Some \<lparr>range_start = 10, range_end = 35\<rparr>)
   \<and> getNewConnection
        \<lparr>currentRemainingRange = None,
         readRequestRange = Some \<lparr>range_start = 5, range_end = 20\<rparr>,
         downloadedRanges = [\<lparr>range_start = 0, range_end = 10\<rparr>, \<lparr>range_start = 40, range_end = 50\<rparr>],
         lastResolvedCallbackEnd = None, maxRequestSize = Unlimited,
         fileSize = 100, continueDownloadingThreshold = 5\<rparr>
       = Inr (Some \<lparr>range_start = 10, range_end = 40\<rparr>)
   \<and> getNewConnection
        \<lparr>currentRemainingRange = Some \<lparr>range_start = 8, range_end = 60\<rparr>,
         readRequestRange = Some \<lparr>range_start = 5, range_end = 20\<rparr>,
         downloadedRanges = [\<lparr>range_start = 0, range_end = 10\<rparr>, \<lparr>range_start = 40, range_end = 50\<rparr>],
         lastResolvedCallbackEnd = None, maxRequestSize = Bytes 30,
         fileSize = 100, continueDownloadingThreshold = 5\<rparr>
       = Inr None"
proof -
  let ?ds = "[\<lparr>range_start = 0, range_end = 10\<rparr>, \<lparr>range_start = 40, range_end = 50\<rparr>]"
  let ?R = "\<lparr>range_start = 5, range_end = 20\<rparr>"
  let ?n0 = "\<lparr>range_start = 10, range_end = 20\<rparr>"
  have c: "canonical ?ds" by (simp add: canonical_def)
  have r: "range_start ?R < range_end ?R" "range_end ?R \<le> 100" by simp_all
  have s: "\<not> exceeds (range_end ?R - range_start ?R) (Bytes 30)"
      "\<not> exceeds (range_end ?R - range_start ?R) Unlimited" by simp_all
  have m: "missingRanges ?R ?ds = ?n0 # []"
    by (simp add: missingRanges_def complement_def intersect1_def isOverlappingSimple_def)
  have g: "missingRanges \<lparr>range_start = 10, range_end = 100\<rparr> ?ds
            = [\<lparr>range_start = 10, range_end = 40\<rparr>, \<lparr>range_start = 50, range_end = 100\<rparr>]"
    by (simp add: missingRanges_def complement_def intersect1_def isOverlappingSimple_def)
  show ?thesis
    using c m
      getNewConnection_with_read_request [OF c r s(1) m, of None None 5]
      getNewConnection_with_read_request [OF c r s(2) m, of None None 5]
      getNewConnection_with_read_request [OF c r s(1) m, of "Some \<lparr>range_start = 8, range_end = 60\<rparr>" None 5]
    by (auto simp: opens_new_connection_def isOverlapping_def isOverlappingSimple_def g)
qed

end
